theory Spec2Isabelle
  imports Complex_Main "HOL-Library.Log_Nat"
begin

unbundle bit_operations_syntax

section \<open>Python arithmetic used by \<^verbatim>\<open>christmas_tree.py\<close>\<close>

subsection \<open>Floats\<close>

text \<open>
  A Python \<^verbatim>\<open>float\<close> is an IEEE 754 binary64 number. A finite one is modelled by the
  rational it denotes, and every arithmetic operation rounds its exact result to the
  nearest representable value, ties to even (\<open>fl\<close>). Subnormal results are covered (the
  exponent is kept at \<open>-1022\<close> or above); infinities and NaN are not values of the
  model, so it describes the program as long as no result reaches \<open>2 ^ 1024\<close>. Every
  brightness the patterns compute lies in \<open>[0, 1]\<close> and every channel in \<open>[0, 255]\<close>.
\<close>

definition round_half_even :: "rat \<Rightarrow> int" where
  "round_half_even x =
     (let n = \<lfloor>x\<rfloor>; r = x - of_int n
      in if r < 1 / 2 then n else if 1 / 2 < r then n + 1 else if even n then n else n + 1)"

text \<open>\<open>ilog2 x\<close> is the binary exponent of a positive \<open>x\<close>: \<open>2 ^ e \<le> x < 2 ^ (e + 1)\<close>.\<close>

definition ilog2 :: "rat \<Rightarrow> int" where
  "ilog2 x = (if 1 \<le> x then bitlen \<lfloor>x\<rfloor> - 1 else - bitlen (\<lceil>1 / x\<rceil> - 1))"

definition fl :: "rat \<Rightarrow> rat" where
  "fl x =
     (if x = 0 then 0
      else let e = max (ilog2 \<bar>x\<bar>) (- 1022); ulp = 2 powi (e - 52)
           in sgn x * of_int (round_half_even (\<bar>x\<bar> / ulp)) * ulp)"

text \<open>\<^verbatim>\<open>float(i)\<close>, and the conversion of the int operand of a mixed operation.\<close>

definition float_of_int :: "int \<Rightarrow> rat" where
  "float_of_int i = fl (of_int i)"

text \<open>\<^verbatim>\<open>a * b\<close> and \<^verbatim>\<open>a / b\<close> on floats (no divisor of the program is zero).\<close>

definition float_mul :: "rat \<Rightarrow> rat \<Rightarrow> rat" where
  "float_mul a b = fl (a * b)"

definition float_div :: "rat \<Rightarrow> rat \<Rightarrow> rat" where
  "float_div a b = fl (a / b)"

text \<open>\<^verbatim>\<open>a / b\<close> on two ints: the correctly rounded quotient.\<close>

definition int_truediv :: "int \<Rightarrow> int \<Rightarrow> rat" where
  "int_truediv a b = fl (of_int a / of_int b)"

text \<open>\<^verbatim>\<open>int(x)\<close> on a float truncates towards zero.\<close>

definition int_of_float :: "rat \<Rightarrow> int" where
  "int_of_float x = (if 0 \<le> x then \<lfloor>x\<rfloor> else \<lceil>x\<rceil>)"

subsection \<open>Ranges\<close>

text \<open>
  \<^verbatim>\<open>range(start, stop, step)\<close>, with CPython's length formula. A zero step raises
  \<^verbatim>\<open>ValueError\<close> in Python; every step of the program is the literal 1, 2, 3 or -1.
\<close>

definition py_range :: "int \<Rightarrow> int \<Rightarrow> int \<Rightarrow> int list" where
  "py_range start stop step =
     (if 0 < step
      then map (\<lambda>k. start + step * int k) [0..<nat ((stop - start + step - 1) div step)]
      else if step < 0
      then map (\<lambda>k. start + step * int k) [0..<nat ((start - stop - step - 1) div (- step))]
      else [])"

section \<open>Colours\<close>

text \<open>
  Modelled from the spec: \<^verbatim>\<open>Color\<close> of the hardware library \<^verbatim>\<open>rpi_ws281x\<close>, which
  is not part of the repository. A colour is a 24-bit RGB value, one byte per channel;
  \<open>alter_brightness\<close> below reads red from bits 16-23, green from bits 8-15 and blue
  from bits 0-7, so \<open>Color\<close> packs them there.
\<close>

definition Color :: "int \<Rightarrow> int \<Rightarrow> int \<Rightarrow> int" where
  "Color red green blue = push_bit 16 red OR push_bit 8 green OR blue"

datatype Colors = NONE | WARM_WHITE | CRYSTAL_BLUE | CRYSTAL_RED | CRYSTAL_GREEN | PURE_WHITE

fun color_value :: "Colors \<Rightarrow> int" where
  "color_value NONE = Color 0 0 0"
| "color_value WARM_WHITE = Color 255 147 41"
| "color_value CRYSTAL_BLUE = Color 0 67 255"
| "color_value CRYSTAL_RED = Color 255 0 0"
| "color_value CRYSTAL_GREEN = Color 0 255 0"
| "color_value PURE_WHITE = Color 255 255 255"

definition DEMO_COLORS :: "Colors list" where
  "DEMO_COLORS = [CRYSTAL_BLUE, CRYSTAL_RED, CRYSTAL_GREEN, PURE_WHITE]"

text \<open>The three channel reads of \<open>alter_brightness\<close>.\<close>

definition channel_red :: "int \<Rightarrow> int" where
  "channel_red v = drop_bit 16 v AND 255"

definition channel_green :: "int \<Rightarrow> int" where
  "channel_green v = drop_bit 8 v AND 255"

definition channel_blue :: "int \<Rightarrow> int" where
  "channel_blue v = v AND 255"

definition alter_brightness :: "Colors \<Rightarrow> rat \<Rightarrow> int" where
  "alter_brightness color brightness =
     Color (int_of_float (float_mul (float_of_int (channel_red (color_value color))) brightness))
           (int_of_float (float_mul (float_of_int (channel_green (color_value color))) brightness))
           (int_of_float (float_mul (float_of_int (channel_blue (color_value color))) brightness))"

section \<open>The pixel strip\<close>

text \<open>
  Modelled from the spec: \<^verbatim>\<open>PixelStrip\<close> of \<^verbatim>\<open>rpi_ws281x\<close>, the hardware
  collaborator, with the operations \<^verbatim>\<open>setPixelColor(index, encodedColor)\<close>,
  \<^verbatim>\<open>numPixels()\<close> and \<^verbatim>\<open>show()\<close>. The strip holds a buffer of \<open>N\<close> colour slots,
  fixed at construction. Setting a slot outside \<open>[0, N)\<close> leaves every slot as it was
  (the no-op reading of the spec's "fails/no-ops", which is also what the library's
  \<^verbatim>\<open>ws2811_led_set\<close> does for an index at or above the count).

  Two logs make the strip's use observable: \<open>trace\<close> records every call the program
  makes on the strip and on \<^verbatim>\<open>time.sleep\<close>, in order, and \<open>shown\<close> records the
  buffer each \<^verbatim>\<open>show()\<close> pushed to the hardware. The hold of \<^verbatim>\<open>time.sleep\<close> itself is
  real time and is not modelled beyond its argument.
\<close>

datatype call = SetPixelColor int int | Show | Sleep rat

record PixelStrip =
  leds :: "int list"
  trace :: "call list"
  shown :: "int list list"

definition numPixels :: "PixelStrip \<Rightarrow> int" where
  "numPixels strip = int (length (leds strip))"

definition setPixelColor :: "int \<Rightarrow> int \<Rightarrow> PixelStrip \<Rightarrow> PixelStrip" where
  "setPixelColor n color strip =
     strip\<lparr>leds := (if 0 \<le> n \<and> n < numPixels strip then (leds strip)[nat n := color]
                    else leds strip),
           trace := trace strip @ [SetPixelColor n color]\<rparr>"

definition strip_show :: "PixelStrip \<Rightarrow> PixelStrip" where
  "strip_show strip = strip\<lparr>trace := trace strip @ [Show], shown := shown strip @ [leds strip]\<rparr>"

definition time_sleep :: "rat \<Rightarrow> PixelStrip \<Rightarrow> PixelStrip" where
  "time_sleep secs strip = strip\<lparr>trace := trace strip @ [Sleep secs]\<rparr>"

section \<open>The light controller\<close>

text \<open>
  The only state of a \<^verbatim>\<open>LightController\<close> is its strip; \<^verbatim>\<open>self._num_pixels\<close> caches
  \<^verbatim>\<open>numPixels()\<close>, which never changes. Every method takes the strip and returns it
  updated. \<^verbatim>\<open>wait_ms\<close> is a natural number: \<^verbatim>\<open>time.sleep\<close> rejects a negative
  duration, and every caller passes 50 or 75.
\<close>

definition num_pixels :: "PixelStrip \<Rightarrow> int" where
  "num_pixels s = numPixels s"

definition set_pixel_color :: "int \<Rightarrow> Colors \<Rightarrow> rat \<Rightarrow> PixelStrip \<Rightarrow> PixelStrip" where
  "set_pixel_color index color brightness s =
     setPixelColor index (alter_brightness color brightness) s"

definition show_with_delay :: "nat \<Rightarrow> PixelStrip \<Rightarrow> PixelStrip" where
  "show_with_delay wait_ms s =
     time_sleep (float_div (float_of_int (int wait_ms)) 1000) (strip_show s)"

text \<open>
  \<^verbatim>\<open>draw_and_erase\<close>. \<open>fade_step\<close> is the body of its \<^verbatim>\<open>for led_idx in pixel_range\<close>
  loop; the outer loop enumerates the two ranges and picks
  \<^verbatim>\<open>color = draw_color if range_idx else eraser\<close>.
\<close>

definition fade_step :: "Colors \<Rightarrow> nat \<Rightarrow> int \<Rightarrow> PixelStrip \<Rightarrow> PixelStrip" where
  "fade_step color wait_ms led_idx s =
     (let lower_bound = max (led_idx - 10) 0;
          s1 = fold (\<lambda>(bright_idx, i).
                       set_pixel_color i color (float_div (float_of_int (10 - int bright_idx)) 10))
                 (enumerate 0 (py_range led_idx lower_bound (- 1))) s;
          s2 = (if 0 < lower_bound then set_pixel_color lower_bound NONE 1 s1 else s1)
      in show_with_delay wait_ms s2)"

definition draw_and_erase :: "Colors \<Rightarrow> Colors \<Rightarrow> nat \<Rightarrow> PixelStrip \<Rightarrow> PixelStrip" where
  "draw_and_erase draw_color eraser wait_ms s =
     fold (\<lambda>(range_idx, pixel_range) s.
             let color = (if range_idx \<noteq> 0 then draw_color else eraser)
             in fold (fade_step color wait_ms) pixel_range s)
       (enumerate 0 [py_range 0 (num_pixels s) 1, py_range (num_pixels s) 0 (- 1)]) s"

text \<open>\<^verbatim>\<open>christmas_colors\<close>; \<open>fl (4 / 10)\<close> is the float literal \<^verbatim>\<open>0.4\<close>.\<close>

definition christmas_colors :: "nat \<Rightarrow> PixelStrip \<Rightarrow> PixelStrip" where
  "christmas_colors wait_ms s =
     (let s1 = fold (\<lambda>i s. set_pixel_color (i + 2) CRYSTAL_GREEN (fl (4 / 10))
                            (set_pixel_color (i + 1) CRYSTAL_RED (fl (4 / 10))
                              (set_pixel_color i PURE_WHITE (fl (4 / 10)) s)))
                 (py_range 0 (num_pixels s) 3) s;
          s2 = show_with_delay wait_ms s1
      in show_with_delay wait_ms s2)"

text \<open>
  \<^verbatim>\<open>pulse\<close>. \<open>pulse_frame\<close> is the common body of its two loops, over
  \<^verbatim>\<open>range(1, 10)\<close> and over \<^verbatim>\<open>range(10, 1, -1)\<close>; the brightness of a frame is the int
  division \<^verbatim>\<open>brightness / 10\<close>.
\<close>

definition pulse_frame :: "Colors \<Rightarrow> nat \<Rightarrow> int \<Rightarrow> PixelStrip \<Rightarrow> PixelStrip" where
  "pulse_frame color wait_ms brightness s =
     show_with_delay wait_ms
       (fold (\<lambda>i. set_pixel_color i color (int_truediv brightness 10))
          (py_range 0 (num_pixels s) 1) s)"

definition pulse :: "Colors \<Rightarrow> nat \<Rightarrow> PixelStrip \<Rightarrow> PixelStrip" where
  "pulse color wait_ms s =
     fold (pulse_frame color wait_ms) (py_range 10 1 (- 1))
       (fold (pulse_frame color wait_ms) (py_range 1 10 1) s)"

definition pulse_between :: "Colors list \<Rightarrow> nat \<Rightarrow> PixelStrip \<Rightarrow> PixelStrip" where
  "pulse_between colors wait_ms s = fold (\<lambda>color. pulse color wait_ms) colors s"

text \<open>
  \<^verbatim>\<open>vapor_trail\<close>. \<open>vapor_step\<close> is the body of its \<^verbatim>\<open>for led_idx\<close> loop. The test
  \<^verbatim>\<open>if led_idx >= 0\<close> is kept as written, although it always holds.
\<close>

definition vapor_step :: "Colors \<Rightarrow> int \<Rightarrow> Colors \<Rightarrow> nat \<Rightarrow> int \<Rightarrow> PixelStrip \<Rightarrow> PixelStrip" where
  "vapor_step color trail trail_color wait_ms led_idx s =
     (let upper_bound = led_idx + trail;
          s1 = fold (\<lambda>(offset, trail_idx) s.
                       set_pixel_color ((led_idx + int offset) mod num_pixels s) color
                         (float_div (float_of_int (int offset)) (float_of_int trail)) s)
                 (enumerate 0 (py_range led_idx upper_bound 1)) s;
          s2 = (if 0 \<le> led_idx then set_pixel_color led_idx trail_color 1 s1 else s1)
      in show_with_delay wait_ms s2)"

definition vapor_trail :: "Colors \<Rightarrow> int \<Rightarrow> Colors \<Rightarrow> nat \<Rightarrow> PixelStrip \<Rightarrow> PixelStrip" where
  "vapor_trail color trail trail_color wait_ms s =
     fold (vapor_step color trail trail_color wait_ms) (py_range 0 (num_pixels s) 1) s"

definition candy_cane :: "nat \<Rightarrow> PixelStrip \<Rightarrow> PixelStrip" where
  "candy_cane wait_ms s =
     vapor_trail CRYSTAL_RED 10 PURE_WHITE wait_ms
       (show_with_delay wait_ms
         (fold (\<lambda>i. set_pixel_color i PURE_WHITE 1) (py_range 0 (num_pixels s) 1) s))"

definition alternating_colors :: "Colors \<Rightarrow> Colors \<Rightarrow> nat \<Rightarrow> PixelStrip \<Rightarrow> PixelStrip" where
  "alternating_colors first second wait_ms s =
     show_with_delay wait_ms
       (fold (\<lambda>i s. set_pixel_color (i + 1) second 1 (set_pixel_color i first 1 s))
          (py_range 0 (num_pixels s) 2) s)"

definition single_color :: "Colors \<Rightarrow> nat \<Rightarrow> PixelStrip \<Rightarrow> PixelStrip" where
  "single_color color wait_ms s =
     show_with_delay wait_ms
       (fold (\<lambda>i. set_pixel_color i color 1) (py_range 0 (num_pixels s) 1) s)"

text \<open>A strip fresh from its constructor, with a given buffer content.\<close>

definition new_strip :: "int list \<Rightarrow> PixelStrip" where
  "new_strip buf = \<lparr>leds = buf, trace = [], shown = []\<rparr>"

section \<open>Replaying a list of calls\<close>

text \<open>
  What a sequence of calls does to a buffer (\<open>apply_calls\<close>) and which frames it pushes
  (\<open>frames_of\<close>); \<open>emit cs\<close> is the strip after the calls \<open>cs\<close>. Every pattern is shown
  below to be \<open>emit\<close> of an explicit list of calls.
\<close>

fun apply_call :: "call \<Rightarrow> int list \<Rightarrow> int list" where
  "apply_call (SetPixelColor n v) buf =
     (if 0 \<le> n \<and> n < int (length buf) then buf[nat n := v] else buf)"
| "apply_call Show buf = buf"
| "apply_call (Sleep t) buf = buf"

definition apply_calls :: "call list \<Rightarrow> int list \<Rightarrow> int list" where
  "apply_calls cs buf = fold apply_call cs buf"

fun frames_of :: "call list \<Rightarrow> int list \<Rightarrow> int list list" where
  "frames_of [] buf = []"
| "frames_of (Show # cs) buf = buf # frames_of cs buf"
| "frames_of (c # cs) buf = frames_of cs (apply_call c buf)"

definition emit :: "call list \<Rightarrow> PixelStrip \<Rightarrow> PixelStrip" where
  "emit cs s = s\<lparr>leds := apply_calls cs (leds s), trace := trace s @ cs,
                 shown := shown s @ frames_of cs (leds s)\<rparr>"

text \<open>The argument of \<^verbatim>\<open>time.sleep\<close>: \<^verbatim>\<open>wait_ms / 1000.0\<close>.\<close>

definition delay :: "nat \<Rightarrow> rat" where
  "delay wait_ms = float_div (float_of_int (int wait_ms)) 1000"

section \<open>The calls each pattern issues\<close>

text \<open>
  \<open>frame_end\<close>: the flush and the hold that close a frame. \<open>fade_calls color k\<close>: the
  writes of \<^verbatim>\<open>draw_and_erase\<close> at head position \<open>k\<close>, the fade over the pixels
  \<open>k, k - 1, \<dots>\<close> down to \<open>max (k - 10) 0 + 1\<close> and the clear of pixel \<open>k - 10\<close> when that
  is positive. \<open>vapor_calls\<close>: the writes of \<^verbatim>\<open>vapor_trail\<close> at head position \<open>h\<close>.
  \<open>fill_calls\<close>: one write per pixel, all with the same colour and brightness.
  \<open>christmas_calls i\<close>: the three writes of \<^verbatim>\<open>christmas_colors\<close> at index \<open>i\<close>.
\<close>

definition frame_end :: "nat \<Rightarrow> call list" where
  "frame_end wait_ms = [Show, Sleep (delay wait_ms)]"

definition fade_calls :: "Colors \<Rightarrow> int \<Rightarrow> call list" where
  "fade_calls color k =
     map (\<lambda>j. SetPixelColor (k - int j)
                (alter_brightness color (float_div (float_of_int (10 - int j)) 10)))
       [0..<nat (min k 10)]
     @ (if 10 < k then [SetPixelColor (k - 10) (color_value NONE)] else [])"

definition sweep_calls :: "Colors \<Rightarrow> nat \<Rightarrow> int list \<Rightarrow> call list" where
  "sweep_calls color wait_ms ks = concat (map (\<lambda>k. fade_calls color k @ frame_end wait_ms) ks)"

definition vapor_calls :: "Colors \<Rightarrow> int \<Rightarrow> Colors \<Rightarrow> int \<Rightarrow> int \<Rightarrow> call list" where
  "vapor_calls color trail trail_color n h =
     map (\<lambda>off. SetPixelColor ((h + int off) mod n)
                  (alter_brightness color (float_div (float_of_int (int off)) (float_of_int trail))))
       [0..<nat trail]
     @ [SetPixelColor h (color_value trail_color)]"

definition fill_calls :: "Colors \<Rightarrow> rat \<Rightarrow> nat \<Rightarrow> call list" where
  "fill_calls color brightness n =
     map (\<lambda>i. SetPixelColor (int i) (alter_brightness color brightness)) [0..<n]"

definition christmas_calls :: "int \<Rightarrow> call list" where
  "christmas_calls i =
     [SetPixelColor i (alter_brightness PURE_WHITE (fl (4 / 10))),
      SetPixelColor (i + 1) (alter_brightness CRYSTAL_RED (fl (4 / 10))),
      SetPixelColor (i + 2) (alter_brightness CRYSTAL_GREEN (fl (4 / 10)))]"

text \<open>\<open>writes_to p c\<close>: the call \<open>c\<close> sets pixel \<open>p\<close>. \<open>is_write c\<close>: it sets some pixel.\<close>

fun writes_to :: "int \<Rightarrow> call \<Rightarrow> bool" where
  "writes_to p (SetPixelColor n v) = (n = p)"
| "writes_to p Show = False"
| "writes_to p (Sleep t) = False"

fun is_write :: "call \<Rightarrow> bool" where
  "is_write (SetPixelColor n v) = True"
| "is_write Show = False"
| "is_write (Sleep t) = False"

text \<open>
  The spec's ``color most recently set'' for a slot, read off a list of calls:
  \<open>most_recently_set q cs held\<close> is the value of the last call of \<open>cs\<close> that sets slot
  \<open>q\<close>, and \<open>held\<close>, the value the slot had before, when there is none.
  \<open>calls_before_show k cs\<close> is the part of \<open>cs\<close> that precedes its show number \<open>k\<close>,
  counted from 0.
\<close>

fun most_recently_set :: "nat \<Rightarrow> call list \<Rightarrow> int \<Rightarrow> int" where
  "most_recently_set q [] held = held"
| "most_recently_set q (SetPixelColor n v # cs) held =
     most_recently_set q cs (if n = int q then v else held)"
| "most_recently_set q (Show # cs) held = most_recently_set q cs held"
| "most_recently_set q (Sleep t # cs) held = most_recently_set q cs held"

fun calls_before_show :: "nat \<Rightarrow> call list \<Rightarrow> call list" where
  "calls_before_show k [] = []"
| "calls_before_show k (Show # cs) = (if k = 0 then [] else Show # calls_before_show (k - 1) cs)"
| "calls_before_show k (SetPixelColor n v # cs) = SetPixelColor n v # calls_before_show k cs"
| "calls_before_show k (Sleep t # cs) = Sleep t # calls_before_show k cs"

section \<open>Rounding stays inside integer bounds\<close>

lemma round_half_even_nonneg: "0 \<le> x \<Longrightarrow> 0 \<le> round_half_even x"
  by (auto simp: round_half_even_def Let_def)

lemma round_half_even_le:
  assumes "x \<le> of_int k"
  shows "round_half_even x \<le> k"
proof (cases "\<lfloor>x\<rfloor> = k")
  case True
  then have "x - of_int \<lfloor>x\<rfloor> \<le> 0" using assms by simp
  then show ?thesis using True by (simp add: round_half_even_def Let_def)
next
  case False
  moreover have "\<lfloor>x\<rfloor> \<le> k" using assms by (simp add: floor_le_iff)
  ultimately have "\<lfloor>x\<rfloor> + 1 \<le> k" by simp
  then show ?thesis by (auto simp: round_half_even_def Let_def)
qed

lemma ilog2_lower:
  assumes pos: "0 < x"
  shows "2 powi (ilog2 x) \<le> x"
proof (cases "1 \<le> x")
  case True
  then have p: "0 < \<lfloor>x\<rfloor>" by simp
  have b: "1 \<le> bitlen \<lfloor>x\<rfloor>" using p by (simp add: bitlen_alt_def)
  have "(2::int) ^ nat (bitlen \<lfloor>x\<rfloor> - 1) \<le> \<lfloor>x\<rfloor>" using bitlen_bounds [OF p] by simp
  then have "of_int ((2::int) ^ nat (bitlen \<lfloor>x\<rfloor> - 1)) \<le> x" by (simp add: le_floor_iff)
  then have "(2::rat) ^ nat (bitlen \<lfloor>x\<rfloor> - 1) \<le> x" by simp
  moreover have "(2::rat) powi (bitlen \<lfloor>x\<rfloor> - 1) = 2 ^ nat (bitlen \<lfloor>x\<rfloor> - 1)"
    using b by (simp add: power_int_def)
  ultimately show ?thesis using True by (simp add: ilog2_def)
next
  case False
  let ?m = "\<lceil>1 / x\<rceil> - 1"
  have "1 < 1 / x" using pos False by simp
  then have m: "0 < ?m" by (simp add: less_ceiling_iff)
  have "?m < 2 ^ nat (bitlen ?m)" using bitlen_bounds [OF m] by simp
  then have "\<lceil>1 / x\<rceil> \<le> 2 ^ nat (bitlen ?m)" by simp
  then have "1 / x \<le> of_int (2 ^ nat (bitlen ?m))" by (simp only: ceiling_le_iff)
  then have "1 / x \<le> 2 ^ nat (bitlen ?m)" by simp
  then have "1 \<le> 2 ^ nat (bitlen ?m) * x" using pos by (simp add: pos_divide_le_eq)
  then have "1 / 2 ^ nat (bitlen ?m) \<le> x" by (simp add: pos_divide_le_eq mult.commute)
  moreover have "(2::rat) powi (- bitlen ?m) = 1 / 2 ^ nat (bitlen ?m)"
    using bitlen_nonneg [of ?m] by (simp add: power_int_def field_simps)
  ultimately show ?thesis using False by (simp add: ilog2_def)
qed

lemma fl_nonneg: "0 \<le> x \<Longrightarrow> 0 \<le> fl x"
  by (auto simp: fl_def Let_def
      intro!: mult_nonneg_nonneg round_half_even_nonneg divide_nonneg_nonneg)

lemma fl_le_int:
  assumes "0 \<le> x" and "x \<le> of_int k" and "k < 2 ^ 53"
  shows "fl x \<le> of_int k"
proof (cases "x = 0")
  case True
  then show ?thesis using assms by (simp add: fl_def)
next
  case False
  then have pos: "0 < x" using assms by simp
  define e where "e = max (ilog2 x) (- 1022)"
  define ulp :: rat where "ulp = 2 powi (e - 52)"
  have "2 powi (ilog2 x) \<le> x" by (rule ilog2_lower [OF pos])
  also have "x < 2 ^ 53" using assms
    by (metis (no_types, opaque_lifting) of_int_less_iff of_int_numeral of_int_power
        order_le_less_trans)
  finally have "(2::rat) powi (ilog2 x) < 2 powi 53" by simp
  then have "ilog2 x < 53" by (rule power_int_le_imp_less_exp [rotated]) simp_all
  then have e: "e \<le> 52" by (simp add: e_def)
  have ulp: "ulp = 1 / 2 ^ nat (52 - e)"
    using e by (cases "e = 52") (simp_all add: ulp_def power_int_def field_simps)
  have up: "0 < ulp" by (simp add: ulp)
  have "x / ulp \<le> of_int (k * 2 ^ nat (52 - e))" using assms by (simp add: ulp)
  then have "round_half_even (x / ulp) \<le> k * 2 ^ nat (52 - e)" by (rule round_half_even_le)
  then have "(of_int (round_half_even (x / ulp)) :: rat) \<le> of_int (k * 2 ^ nat (52 - e))"
    by (simp only: of_int_le_iff)
  then have "of_int (round_half_even (x / ulp)) * ulp \<le> of_int (k * 2 ^ nat (52 - e)) * ulp"
    using up by (simp only: mult_le_cancel_right_pos)
  also have "\<dots> = of_int k" by (simp add: ulp)
  finally show ?thesis
    using pos by (simp add: fl_def Let_def e_def [symmetric] ulp_def [symmetric])
qed

text \<open>A channel value scaled by a brightness in \<open>[0, 1]\<close> is again a byte.\<close>

lemma scaled_channel_byte:
  assumes "0 \<le> c" "c \<le> 255" "0 \<le> b" "b \<le> 1"
  shows "0 \<le> int_of_float (float_mul (float_of_int c) b)"
    and "int_of_float (float_mul (float_of_int c) b) \<le> 255"
    and "int_of_float (float_mul (float_of_int c) b) = \<lfloor>float_mul (float_of_int c) b\<rfloor>"
proof -
  have c0: "0 \<le> float_of_int c" using assms by (simp add: float_of_int_def fl_nonneg)
  have c1: "float_of_int c \<le> of_int 255"
    unfolding float_of_int_def using assms by (intro fl_le_int) simp_all
  have p0: "0 \<le> float_of_int c * b" using c0 assms by simp
  have "float_of_int c * b \<le> float_of_int c * 1" using c0 assms by (intro mult_left_mono) simp_all
  then have p1: "float_of_int c * b \<le> of_int 255" using c1 by simp
  have m0: "0 \<le> float_mul (float_of_int c) b" using p0 by (simp add: float_mul_def fl_nonneg)
  have m1: "float_mul (float_of_int c) b \<le> of_int 255"
    unfolding float_mul_def using p0 p1 by (intro fl_le_int) simp_all
  show "int_of_float (float_mul (float_of_int c) b) = \<lfloor>float_mul (float_of_int c) b\<rfloor>"
    using m0 by (simp add: int_of_float_def)
  show "0 \<le> int_of_float (float_mul (float_of_int c) b)"
    using m0 by (simp add: int_of_float_def)
  have "\<lfloor>float_mul (float_of_int c) b\<rfloor> \<le> 255" using m1 by (simp add: floor_le_iff)
  then show "int_of_float (float_mul (float_of_int c) b) \<le> 255"
    using m0 by (simp add: int_of_float_def)
qed

section \<open>Packing and unpacking bytes\<close>

lemma and_255: "(v::int) AND 255 = v mod 256"
proof -
  have "(255::int) = mask 8" by (simp add: mask_eq_exp_minus_1)
  then have "v AND 255 = take_bit 8 v" by (simp add: take_bit_eq_mask)
  then show ?thesis by (simp add: take_bit_eq_mod)
qed

lemma push_or_add:
  fixes a b :: int
  assumes "0 \<le> b" "b < 2 ^ n"
  shows "push_bit n a OR b = a * 2 ^ n + b"
proof -
  have b: "take_bit n b = b" using assms by (simp add: take_bit_int_eq_self)
  have "push_bit n a AND take_bit n b = 0"
    by (rule bit_eqI) (auto simp: bit_simps)
  then have "push_bit n a + take_bit n b = push_bit n a OR take_bit n b"
    by (rule disjunctive_add_eq_or)
  then show ?thesis by (simp add: b push_bit_eq_mult)
qed

lemma Color_bytes:
  assumes "0 \<le> g" "g \<le> 255" "0 \<le> b" "b \<le> 255"
  shows "Color r g b = r * 65536 + g * 256 + b"
proof -
  have "push_bit 8 g OR b = g * 2 ^ 8 + b" using assms by (intro push_or_add) simp_all
  moreover have "push_bit 16 r OR (g * 256 + b) = r * 2 ^ 16 + (g * 256 + b)"
    using assms by (intro push_or_add) simp_all
  ultimately show ?thesis by (simp add: Color_def or.assoc)
qed

lemma Color_channels:
  assumes "0 \<le> r" "r \<le> 255" "0 \<le> g" "g \<le> 255" "0 \<le> b" "b \<le> 255"
  shows "channel_red (Color r g b) = r" and "channel_green (Color r g b) = g"
    and "channel_blue (Color r g b) = b" and "0 \<le> Color r g b" and "Color r g b < 2 ^ 24"
proof -
  have v: "Color r g b = r * 65536 + g * 256 + b" using assms by (simp add: Color_bytes)
  have b0: "b div 256 = 0" and b1: "b mod 256 = b" using assms by simp_all
  have g0: "g div 256 = 0" and g1: "g mod 256 = g" using assms by simp_all
  have r1: "r mod 256 = r" using assms by simp
  have lo: "(g * 256 + b) div 65536 = 0"
    using assms by (intro div_pos_pos_trivial) simp_all
  have "(r * 65536 + g * 256 + b) div 65536 = (g * 256 + b + r * 65536) div 65536"
    by (simp add: add.commute add.left_commute)
  also have "\<dots> = r + (g * 256 + b) div 65536" by simp
  finally have d16: "(r * 65536 + g * 256 + b) div 65536 = r" using lo by simp
  have e: "r * 65536 + g * 256 + b = b + (r * 256 + g) * 256" by simp
  have "(b + (r * 256 + g) * 256) div 256 = (r * 256 + g) + b div 256"
    by (rule div_mult_self1) simp
  then have d8: "(r * 65536 + g * 256 + b) div 256 = r * 256 + g"
    unfolding e b0 by simp
  have "(b + (r * 256 + g) * 256) mod 256 = b mod 256"
    by (rule mod_mult_self1)
  then have m8: "(r * 65536 + g * 256 + b) mod 256 = b"
    unfolding e b1 .
  have mg: "(r * 256 + g) mod 256 = g"
    using g1 by simp
  show "channel_red (Color r g b) = r"
    unfolding v channel_red_def and_255 drop_bit_eq_div using d16 r1 by simp
  show "channel_green (Color r g b) = g"
    unfolding v channel_green_def and_255 drop_bit_eq_div using d8 mg by simp
  show "channel_blue (Color r g b) = b"
    unfolding v channel_blue_def and_255 using m8 by simp
  show "0 \<le> Color r g b" using assms unfolding v by simp
  show "Color r g b < 2 ^ 24" using assms unfolding v by simp
qed

lemma channel_range:
  "0 \<le> channel_red v" "channel_red v \<le> 255" "0 \<le> channel_green v" "channel_green v \<le> 255"
  "0 \<le> channel_blue v" "channel_blue v \<le> 255"
  by (simp_all add: channel_red_def channel_green_def channel_blue_def and_255)

lemma alter_brightness_full_NONE: "alter_brightness NONE 1 = color_value NONE"
  by code_simp

lemma alter_brightness_full_WARM_WHITE: "alter_brightness WARM_WHITE 1 = color_value WARM_WHITE"
  by code_simp

lemma alter_brightness_full_CRYSTAL_BLUE:
  "alter_brightness CRYSTAL_BLUE 1 = color_value CRYSTAL_BLUE"
  by code_simp

lemma alter_brightness_full_CRYSTAL_RED:
  "alter_brightness CRYSTAL_RED 1 = color_value CRYSTAL_RED"
  by code_simp

lemma alter_brightness_full_CRYSTAL_GREEN:
  "alter_brightness CRYSTAL_GREEN 1 = color_value CRYSTAL_GREEN"
  by code_simp

lemma alter_brightness_full_PURE_WHITE: "alter_brightness PURE_WHITE 1 = color_value PURE_WHITE"
  by code_simp

lemma alter_brightness_full: "alter_brightness C 1 = color_value C"
  by (cases C)
    (simp_all only: alter_brightness_full_NONE alter_brightness_full_WARM_WHITE
      alter_brightness_full_CRYSTAL_BLUE alter_brightness_full_CRYSTAL_RED
      alter_brightness_full_CRYSTAL_GREEN alter_brightness_full_PURE_WHITE)

section \<open>Brightness scaling\<close>

text \<open>
  Claim C7, as amended. For every colour \<open>C\<close> and every brightness \<open>b\<close> in \<open>[0, 1]\<close>, each
  channel of \<open>alter_brightness C b\<close> is the floor of the (binary64) product of that
  channel of \<open>C\<close> and \<open>b\<close>, the result is again a 24-bit value, and brightness 1.0 returns
  \<open>C\<close> itself. The function is pure: it has no state to change.
\<close>

theorem alter_brightness_unit_range:
  assumes "0 \<le> b" and "b \<le> 1"
  shows "channel_red (alter_brightness C b)
           = \<lfloor>float_mul (float_of_int (channel_red (color_value C))) b\<rfloor>
       \<and> channel_green (alter_brightness C b)
           = \<lfloor>float_mul (float_of_int (channel_green (color_value C))) b\<rfloor>
       \<and> channel_blue (alter_brightness C b)
           = \<lfloor>float_mul (float_of_int (channel_blue (color_value C))) b\<rfloor>
       \<and> 0 \<le> alter_brightness C b \<and> alter_brightness C b < 2 ^ 24
       \<and> alter_brightness C 1 = color_value C"
proof -
  let ?r = "int_of_float (float_mul (float_of_int (channel_red (color_value C))) b)"
  let ?g = "int_of_float (float_mul (float_of_int (channel_green (color_value C))) b)"
  let ?b = "int_of_float (float_mul (float_of_int (channel_blue (color_value C))) b)"
  note r = scaled_channel_byte [OF channel_range(1,2) assms, of "color_value C"]
  note g = scaled_channel_byte [OF channel_range(3,4) assms, of "color_value C"]
  note bl = scaled_channel_byte [OF channel_range(5,6) assms, of "color_value C"]
  note ch = Color_channels [OF r(1,2) g(1,2) bl(1,2)]
  have ab: "alter_brightness C b = Color ?r ?g ?b" by (simp add: alter_brightness_def)
  show ?thesis
    unfolding ab using ch r(3) g(3) bl(3) alter_brightness_full [of C] by simp
qed

theorem alter_brightness_unit_range_witness:
  "(0::rat) \<le> 1 / 2 \<and> (1::rat) / 2 \<le> 1
   \<and> channel_green (alter_brightness WARM_WHITE (1 / 2))
       = \<lfloor>float_mul (float_of_int (channel_green (color_value WARM_WHITE))) (1 / 2)\<rfloor>
   \<and> alter_brightness WARM_WHITE (1 / 2) < 2 ^ 24
   \<and> alter_brightness WARM_WHITE 1 = color_value WARM_WHITE"
proof -
  have h1: "(0::rat) \<le> 1 / 2" and h2: "(1::rat) / 2 \<le> 1" by simp_all
  show ?thesis
    using h1 h2 alter_brightness_unit_range [OF h1 h2, of WARM_WHITE] by simp
qed

text \<open>
  Claim C7 as stated fails outside \<open>[0, 1]\<close>. At brightness 2.0 the red channel of
  \<open>CRYSTAL_RED\<close> becomes 510, which no byte holds: the packed result leaves the 24-bit
  range and its red byte reads 254. At brightness -0.5 the product -127.5 is truncated
  to -127, not floored to -128, and the packed result is negative.
\<close>

theorem alter_brightness_outside_unit_range:
  "\<lfloor>float_mul (float_of_int (channel_red (color_value CRYSTAL_RED))) 2\<rfloor> = 510
   \<and> alter_brightness CRYSTAL_RED 2 = 33423360
   \<and> channel_red (alter_brightness CRYSTAL_RED 2) = 254
   \<and> \<not> alter_brightness CRYSTAL_RED 2 < 2 ^ 24
   \<and> \<lfloor>float_mul (float_of_int (channel_red (color_value CRYSTAL_RED))) (- 1 / 2)\<rfloor> = - 128
   \<and> alter_brightness CRYSTAL_RED (- 1 / 2) = - 8323072
   \<and> channel_red (alter_brightness CRYSTAL_RED (- 1 / 2)) = 129"
  by code_simp

section \<open>Patterns as lists of calls\<close>

lemma apply_calls_simps [simp]:
  "apply_calls [] buf = buf"
  "apply_calls (c # cs) buf = apply_calls cs (apply_call c buf)"
  "apply_calls (cs @ ds) buf = apply_calls ds (apply_calls cs buf)"
  by (simp_all add: apply_calls_def)

lemma length_apply_call [simp]: "length (apply_call c buf) = length buf"
  by (cases c) simp_all

lemma length_apply_calls [simp]: "length (apply_calls cs buf) = length buf"
  by (induction cs arbitrary: buf) simp_all

lemma frames_of_append:
  "frames_of (cs @ ds) buf = frames_of cs buf @ frames_of ds (apply_calls cs buf)"
proof (induction cs arbitrary: buf)
  case Nil
  then show ?case by simp
next
  case (Cons c cs)
  then show ?case by (cases c) simp_all
qed

lemma emit_Nil [simp]: "emit [] s = s"
  by (simp add: emit_def)

lemma emit_emit: "emit ds (emit cs s) = emit (cs @ ds) s"
  by (simp add: emit_def frames_of_append)

lemma num_pixels_emit [simp]: "num_pixels (emit cs s) = num_pixels s"
  by (simp add: emit_def num_pixels_def numPixels_def)

lemma setPixelColor_emit: "setPixelColor n v s = emit [SetPixelColor n v] s"
  by (simp add: setPixelColor_def emit_def numPixels_def)

lemma set_pixel_color_emit:
  "set_pixel_color i c b s = emit [SetPixelColor i (alter_brightness c b)] s"
  by (simp add: set_pixel_color_def setPixelColor_emit)

lemma show_with_delay_emit: "show_with_delay w s = emit [Show, Sleep (delay w)] s"
  by (simp add: show_with_delay_def strip_show_def time_sleep_def emit_def delay_def)

lemma fold_emit:
  assumes "\<And>x s. body x s = emit (f (num_pixels s) x) s"
  shows "fold body xs s = emit (concat (map (f (num_pixels s)) xs)) s"
proof (induction xs arbitrary: s)
  case Nil
  then show ?case by simp
next
  case (Cons x xs)
  have "fold body (x # xs) s = fold body xs (emit (f (num_pixels s) x) s)"
    by (simp add: assms [of x s])
  also have "\<dots> = emit (concat (map (f (num_pixels (emit (f (num_pixels s) x) s))) xs))
                      (emit (f (num_pixels s) x) s)"
    by (rule Cons.IH)
  also have "\<dots> = emit (concat (map (f (num_pixels s)) (x # xs))) s"
    by (simp add: emit_emit)
  finally show ?case .
qed

section \<open>Ranges in closed form\<close>

lemma py_range_up: "py_range 0 n 1 = map int [0..<nat n]"
  by (simp add: py_range_def)

lemma py_range_down: "py_range a b (- 1) = map (\<lambda>j. a - int j) [0..<nat (a - b)]"
  by (simp add: py_range_def)

lemma py_range_from: "py_range a b 1 = map (\<lambda>j. a + int j) [0..<nat (b - a)]"
  by (simp add: py_range_def)

lemma enumerate_map_upt: "enumerate 0 (map f [0..<n]) = map (\<lambda>j. (j, f j)) [0..<n]"
  by (simp add: enumerate_eq_zip zip_map2 zip_same_conv_map)

lemma concat_map_singleton_call: "concat (map (\<lambda>x. [g x]) xs) = map g xs"
  by (induction xs) simp_all

lemma fold_set_pixels_emit:
  "fold (\<lambda>x. set_pixel_color (idx x) color (br x)) xs s
     = emit (map (\<lambda>x. SetPixelColor (idx x) (alter_brightness color (br x))) xs) s"
proof -
  have "fold (\<lambda>x. set_pixel_color (idx x) color (br x)) xs s
          = emit (concat (map ((\<lambda>n x. [SetPixelColor (idx x) (alter_brightness color (br x))])
                                 (num_pixels s)) xs)) s"
    by (rule fold_emit) (simp add: set_pixel_color_emit)
  then show ?thesis by (simp add: concat_map_singleton_call)
qed

lemma fade_step_emit:
  "fade_step color w k s = emit (fade_calls color k @ frame_end w) s"
proof -
  define lb where "lb = max (k - 10) 0"
  have n: "nat (k - lb) = nat (min k 10)" by (auto simp: lb_def max_def min_def)
  have lb0: "0 < lb \<longleftrightarrow> 10 < k" by (auto simp: lb_def max_def)
  have lbk: "lb = k - 10" if "10 < k" using that by (auto simp: lb_def max_def)
  have "fold (\<lambda>(bright_idx, i).
                set_pixel_color i color (float_div (float_of_int (10 - int bright_idx)) 10))
          (enumerate 0 (py_range k lb (- 1))) s
        = fold (\<lambda>x. set_pixel_color (snd x) color (float_div (float_of_int (10 - int (fst x))) 10))
            (map (\<lambda>j. (j, k - int j)) [0..<nat (min k 10)]) s"
    by (simp add: py_range_down enumerate_map_upt n case_prod_unfold)
  also have "\<dots> = emit (map (\<lambda>j. SetPixelColor (k - int j)
                (alter_brightness color (float_div (float_of_int (10 - int j)) 10)))
                [0..<nat (min k 10)]) s"
    by (simp add: fold_set_pixels_emit o_def)
  finally have f: "fold (\<lambda>(bright_idx, i).
                set_pixel_color i color (float_div (float_of_int (10 - int bright_idx)) 10))
          (enumerate 0 (py_range k lb (- 1))) s
        = emit (map (\<lambda>j. SetPixelColor (k - int j)
                (alter_brightness color (float_div (float_of_int (10 - int j)) 10)))
                [0..<nat (min k 10)]) s" .
  show ?thesis
  proof (cases "10 < k")
    case True
    then have pos: "0 < lb" by (simp only: lb0)
    show ?thesis
      unfolding fade_step_def Let_def lb_def [symmetric] f
      by (simp only: pos if_True set_pixel_color_emit show_with_delay_emit emit_emit
          alter_brightness_full)
        (simp only: lbk [OF True] True if_True fade_calls_def frame_end_def append_assoc
          append.simps)
  next
    case False
    then show ?thesis
      unfolding fade_step_def Let_def lb_def [symmetric] f
      by (simp only: lb0 if_False fade_calls_def frame_end_def set_pixel_color_emit
          show_with_delay_emit emit_emit alter_brightness_full append_assoc append.simps
          append_Nil2)
  qed
qed

lemma sweep_emit:
  "fold (fade_step color w) ks s = emit (sweep_calls color w ks) s"
proof -
  have "fold (fade_step color w) ks s
          = emit (concat (map ((\<lambda>n k. fade_calls color k @ frame_end w) (num_pixels s)) ks)) s"
    by (rule fold_emit) (simp add: fade_step_emit)
  then show ?thesis by (simp add: sweep_calls_def)
qed

lemma draw_and_erase_emit:
  "draw_and_erase d e w s
     = emit (sweep_calls e w (map int [0..<length (leds s)])
             @ sweep_calls d w (map (\<lambda>j. int (length (leds s)) - int j) [0..<length (leds s)])) s"
  by (simp add: draw_and_erase_def enumerate_eq_zip sweep_emit emit_emit py_range_up
      py_range_down num_pixels_def numPixels_def)

lemma vapor_step_emit:
  assumes "0 \<le> h"
  shows "vapor_step color trail tc w h s
           = emit (vapor_calls color trail tc (num_pixels s) h @ frame_end w) s"
proof -
  let ?body = "\<lambda>(offset, trail_idx) s.
                 set_pixel_color ((h + int offset) mod num_pixels s) color
                   (float_div (float_of_int (int offset)) (float_of_int trail)) s"
  let ?f = "\<lambda>n x. [SetPixelColor ((h + int (fst x)) mod n)
              (alter_brightness color (float_div (float_of_int (int (fst x))) (float_of_int trail)))]"
  have "fold ?body (enumerate 0 (py_range h (h + trail) 1)) s
          = emit (concat (map (?f (num_pixels s)) (enumerate 0 (py_range h (h + trail) 1)))) s"
    by (rule fold_emit) (simp add: set_pixel_color_emit case_prod_unfold)
  also have "concat (map (?f (num_pixels s)) (enumerate 0 (py_range h (h + trail) 1)))
          = map (\<lambda>off. SetPixelColor ((h + int off) mod num_pixels s)
                  (alter_brightness color (float_div (float_of_int (int off)) (float_of_int trail))))
              [0..<nat trail]"
    by (simp add: py_range_from enumerate_map_upt concat_map_singleton_call o_def)
  finally show ?thesis using assms
    by (simp add: vapor_step_def Let_def vapor_calls_def frame_end_def set_pixel_color_emit
        show_with_delay_emit emit_emit alter_brightness_full)
qed

lemma vapor_trail_emit:
  "vapor_trail color trail tc w s
     = emit (concat (map (\<lambda>h. vapor_calls color trail tc (int (length (leds s))) h @ frame_end w)
                       (map int [0..<length (leds s)]))) s"
proof -
  let ?f = "\<lambda>n h. vapor_calls color trail tc n (int h) @ frame_end w"
  have "fold (\<lambda>h. vapor_step color trail tc w (int h)) [0..<length (leds s)] s
          = emit (concat (map (?f (num_pixels s)) [0..<length (leds s)])) s"
    by (rule fold_emit) (simp add: vapor_step_emit)
  then show ?thesis
    by (simp add: vapor_trail_def py_range_up fold_map o_def num_pixels_def numPixels_def)
qed

lemma pulse_frame_emit:
  "pulse_frame color w b s
     = emit (fill_calls color (int_truediv b 10) (length (leds s)) @ frame_end w) s"
proof -
  have "fold (\<lambda>i. set_pixel_color i color (int_truediv b 10)) (py_range 0 (num_pixels s) 1) s
          = emit (fill_calls color (int_truediv b 10) (length (leds s))) s"
    by (simp add: py_range_up fold_set_pixels_emit [where idx = "\<lambda>i. i"] fill_calls_def
        num_pixels_def numPixels_def o_def)
  then show ?thesis
    by (simp add: pulse_frame_def show_with_delay_emit emit_emit frame_end_def)
qed

lemma pulse_frames_emit:
  "fold (pulse_frame color w) bs s
     = emit (concat (map (\<lambda>b. fill_calls color (int_truediv b 10) (length (leds s)) @ frame_end w)
                       bs)) s"
proof -
  let ?f = "\<lambda>n b. fill_calls color (int_truediv b 10) (nat n) @ frame_end w"
  have "fold (pulse_frame color w) bs s = emit (concat (map (?f (num_pixels s)) bs)) s"
    by (rule fold_emit) (simp add: pulse_frame_emit num_pixels_def numPixels_def)
  then show ?thesis by (simp add: num_pixels_def numPixels_def)
qed

section \<open>What a list of calls leaves in a slot\<close>

lemma apply_call_other: "\<not> writes_to (int q) c \<Longrightarrow> apply_call c buf ! q = buf ! q"
  by (cases c) (auto simp: nth_list_update)

lemma apply_calls_other:
  "\<not> list_ex (writes_to (int q)) cs \<Longrightarrow> apply_calls cs buf ! q = buf ! q"
  by (induction cs arbitrary: buf) (simp_all add: apply_call_other)

lemma apply_calls_last_write:
  assumes "q < length buf" and "\<not> list_ex (writes_to (int q)) ds"
  shows "apply_calls (cs @ SetPixelColor (int q) v # ds) buf ! q = v"
proof -
  have "apply_calls (cs @ SetPixelColor (int q) v # ds) buf ! q
          = apply_call (SetPixelColor (int q) v) (apply_calls cs buf) ! q"
    using assms(2) by (simp add: apply_calls_other)
  then show ?thesis using assms(1) by simp
qed

lemma frames_of_other:
  "\<not> list_ex (writes_to (int q)) cs
     \<Longrightarrow> map (\<lambda>F. F ! q) (frames_of cs buf) = replicate (length (frames_of cs buf)) (buf ! q)"
proof (induction cs arbitrary: buf)
  case Nil
  then show ?case by simp
next
  case (Cons c cs)
  then show ?case by (cases c) (simp_all add: apply_call_other del: apply_call.simps)
qed

lemma frames_of_writes: "list_all is_write ws \<Longrightarrow> frames_of ws buf = []"
proof (induction ws arbitrary: buf)
  case Nil
  then show ?case by simp
next
  case (Cons c cs)
  then show ?case by (cases c) simp_all
qed

lemma apply_calls_frame_end [simp]: "apply_calls (frame_end w) buf = buf"
  by (simp add: frame_end_def)

lemma frames_of_frame_end [simp]: "frames_of (frame_end w) buf = [buf]"
  by (simp add: frame_end_def)

lemma frames_of_frame:
  "list_all is_write ws \<Longrightarrow> frames_of (ws @ frame_end w) buf = [apply_calls ws buf]"
  by (simp add: frames_of_append frames_of_writes frame_end_def)

lemma frames_of_concat:
  assumes "\<And>x. list_all is_write (W x)"
  shows "frames_of (concat (map (\<lambda>x. W x @ frame_end w) xs)) buf
           = map (\<lambda>i. apply_calls (W (xs ! i))
                        (apply_calls (concat (map (\<lambda>x. W x @ frame_end w) (take i xs))) buf))
               [0..<length xs]"
proof (induction xs rule: rev_induct)
  case Nil
  then show ?case by simp
next
  case (snoc x xs)
  have "map (\<lambda>i. apply_calls (W ((xs @ [x]) ! i))
                        (apply_calls (concat (map (\<lambda>x. W x @ frame_end w) (take i (xs @ [x])))) buf))
               [0..<length xs]
        = map (\<lambda>i. apply_calls (W (xs ! i))
                        (apply_calls (concat (map (\<lambda>x. W x @ frame_end w) (take i xs))) buf))
               [0..<length xs]"
    by (rule map_cong) (simp_all add: nth_append)
  then show ?case
    by (simp add: frames_of_append snoc.IH frames_of_writes [OF assms])
qed

lemma list_all_is_write_map [simp]: "list_all is_write (map (\<lambda>x. SetPixelColor (f x) (g x)) xs)"
  by (induction xs) simp_all

lemma fade_calls_writes [simp]: "list_all is_write (fade_calls color k)"
  by (simp add: fade_calls_def)

lemma vapor_calls_writes [simp]: "list_all is_write (vapor_calls color t tc n h)"
  by (simp add: vapor_calls_def)

lemma fill_calls_writes [simp]: "list_all is_write (fill_calls color b n)"
  by (simp add: fill_calls_def)

lemma leds_emit [simp]: "leds (emit cs s) = apply_calls cs (leds s)"
  and trace_emit [simp]: "trace (emit cs s) = trace s @ cs"
  and shown_emit [simp]: "shown (emit cs s) = shown s @ frames_of cs (leds s)"
  by (simp_all add: emit_def)

text \<open>No call of a fade ever addresses slot 0.\<close>

lemma fade_calls_not_0: "\<not> list_ex (writes_to 0) (fade_calls color k)"
  by (auto simp: fade_calls_def list_ex_iff)

lemma sweep_calls_not_0: "\<not> list_ex (writes_to 0) (sweep_calls color w ks)"
  using fade_calls_not_0 by (auto simp: sweep_calls_def list_ex_iff frame_end_def)

lemma length_frames_of_sweep: "length (frames_of (sweep_calls color w ks) buf) = length ks"
  by (simp add: sweep_calls_def frames_of_concat)

lemma down_range: "map (\<lambda>j. int n - int j) [0..<n] = rev (map int [1..<Suc n])"
proof (induction n)
  case 0
  then show ?case by simp
next
  case (Suc n)
  have "map (\<lambda>j. int (Suc n) - int j) [0..<Suc n]
          = int (Suc n) # map (\<lambda>j. int (Suc n) - int j) (map Suc [0..<n])"
    by (simp only: map_Suc_upt upt_conv_Cons [of 0 "Suc n"] list.map) simp
  also have "\<dots> = int (Suc n) # map (\<lambda>j. int n - int j) [0..<n]"
    by (simp add: o_def)
  finally show ?case by (simp add: Suc.IH)
qed

section \<open>Draw and erase: which colour in which pass\<close>

text \<open>
  The trace of one call of \<open>draw_and_erase\<close>: the calls of an upward pass, head 0 to
  \<open>N - 1\<close>, that fades with \<open>eraser\<close>, followed by the calls of a downward pass, head
  \<open>N\<close> to 1, that fades with \<open>draw_color\<close>. The source picks the colour with
  \<^verbatim>\<open>draw_color if range_idx else eraser\<close>, and \<^verbatim>\<open>range_idx\<close> is 0 in the first pass.
\<close>

lemma draw_and_erase_trace:
  "trace (draw_and_erase draw_color eraser wait_ms s)
     = trace s
       @ sweep_calls eraser wait_ms (map int [0..<length (leds s)])
       @ sweep_calls draw_color wait_ms (rev (map int [1..<Suc (length (leds s))]))"
  by (simp add: draw_and_erase_emit down_range)

text \<open>
  Claim C1 fails on the code, and the code departs from its own documentation there.
  The docstring of \<^verbatim>\<open>draw_and_erase\<close> numbers the steps ``1. draw_color will be wiped
  in, 2. eraser will erase the wiped color'', and the entry point calls it under the
  comment ``Draw a color then erase it''. On a dark strip of two pixels,
  \<^verbatim>\<open>draw_and_erase(CRYSTAL_RED, WARM_WHITE)\<close> shows four frames: the second, at head 1
  of the first (upward) pass, has pixel 1 in the eraser's warm white; the last, at head
  1 of the second (downward) pass, has it in red; and the call returns with the strip
  still showing the drawn red, which nothing has erased.
\<close>

theorem draw_and_erase_colours_swapped:
  "shown (draw_and_erase CRYSTAL_RED WARM_WHITE 50 (new_strip [0, 0])) ! 1
     = [0, color_value WARM_WHITE]
   \<and> shown (draw_and_erase CRYSTAL_RED WARM_WHITE 50 (new_strip [0, 0])) ! 3
     = [0, color_value CRYSTAL_RED]
   \<and> length (shown (draw_and_erase CRYSTAL_RED WARM_WHITE 50 (new_strip [0, 0]))) = 4
   \<and> leds (draw_and_erase CRYSTAL_RED WARM_WHITE 50 (new_strip [0, 0]))
     = [0, color_value CRYSTAL_RED]
   \<and> color_value WARM_WHITE \<noteq> color_value CRYSTAL_RED"
  by code_simp

section \<open>Indices passed to the strip\<close>

lemma sweep_calls_head:
  assumes "0 < n"
  shows "SetPixelColor (int n) (color_value d)
           \<in> set (sweep_calls d w (map (\<lambda>j. int n - int j) [0..<n]))"
proof -
  have b: "float_div (float_of_int 10) 10 = 1" by code_simp
  have m: "[0..<nat (min (int n) 10)] = 0 # [1..<nat (min (int n) 10)]"
    using assms by (simp add: upt_conv_Cons)
  have "SetPixelColor (int n) (color_value d) \<in> set (fade_calls d (int n))"
    unfolding fade_calls_def m by (simp add: b alter_brightness_full del: color_value.simps)
  moreover have "[0..<n] = 0 # [1..<n]" using assms by (simp add: upt_conv_Cons)
  ultimately show ?thesis by (simp add: sweep_calls_def)
qed

text \<open>
  Claim C3 fails on the code. On the strip of 150 pixels that the entry point builds,
  the call \<^verbatim>\<open>draw_and_erase(draw_color=CRYSTAL_BLUE, eraser=WARM_WHITE)\<close> of the top-level
  cycle passes index 150 to \<^verbatim>\<open>setPixelColor\<close>: the downward pass starts its head at
  \<open>N\<close>, one past the last pixel.
\<close>

theorem draw_and_erase_index_out_of_range:
  "numPixels (new_strip (replicate 150 0)) = 150
   \<and> SetPixelColor 150 (color_value CRYSTAL_BLUE)
       \<in> set (trace (draw_and_erase CRYSTAL_BLUE WARM_WHITE 50 (new_strip (replicate 150 0))))"
  using sweep_calls_head [of 150 CRYSTAL_BLUE 50]
  by (simp add: draw_and_erase_emit numPixels_def new_strip_def del: color_value.simps)

section \<open>Draw and erase, frame by frame\<close>

lemma upt_split: "j < n \<Longrightarrow> [0..<n] = [0..<j] @ j # [Suc j..<n]"
  using upt_add_eq_append [of 0 j "n - j"] by (simp add: upt_conv_Cons)

lemma draw_and_erase_calls_not_0:
  "\<not> list_ex (writes_to 0) (sweep_calls e w ks @ sweep_calls d w ks')"
  using sweep_calls_not_0 by simp

lemma fade_calls_ramp:
  assumes "10 \<le> k" and "j < 10" and "nat (k - int j) < length buf"
  shows "apply_calls (fade_calls color k) buf ! nat (k - int j)
           = alter_brightness color (float_div (float_of_int (10 - int j)) 10)"
proof -
  let ?W = "\<lambda>j. SetPixelColor (k - int j)
                  (alter_brightness color (float_div (float_of_int (10 - int j)) 10))"
  let ?clear = "if 10 < k then [SetPixelColor (k - 10) (color_value NONE)] else []"
  have q: "int (nat (k - int j)) = k - int j" using assms by simp
  have m: "nat (min k 10) = 10" using assms by simp
  have eq: "fade_calls color k
          = map ?W [0..<j] @ SetPixelColor (int (nat (k - int j)))
              (alter_brightness color (float_div (float_of_int (10 - int j)) 10))
            # (map ?W [Suc j..<10] @ ?clear)"
    unfolding fade_calls_def m q using upt_split [OF assms(2)] by simp
  have no: "\<not> list_ex (writes_to (int (nat (k - int j)))) (map ?W [Suc j..<10] @ ?clear)"
    unfolding q using assms by (auto simp: list_ex_iff)
  show ?thesis unfolding eq by (rule apply_calls_last_write [OF assms(3) no])
qed

lemma fade_calls_clear:
  assumes "11 \<le> k" and "nat (k - 10) < length buf"
  shows "apply_calls (fade_calls color k) buf ! nat (k - 10) = color_value NONE"
proof -
  let ?W = "\<lambda>j. SetPixelColor (k - int j)
                  (alter_brightness color (float_div (float_of_int (10 - int j)) 10))"
  have q: "int (nat (k - 10)) = k - 10" using assms by simp
  have eq: "fade_calls color k
          = map ?W [0..<nat (min k 10)] @ SetPixelColor (int (nat (k - 10))) (color_value NONE) # []"
    unfolding fade_calls_def q using assms by simp
  have no: "\<not> list_ex (writes_to (int (nat (k - 10)))) []" by simp
  show ?thesis unfolding eq by (rule apply_calls_last_write [OF assms(2) no])
qed

lemma draw_and_erase_frame:
  assumes "k < length (leds s)"
  shows "\<exists>buf. length buf = length (leds s)
           \<and> shown (draw_and_erase d e w s) ! (length (shown s) + k)
               = apply_calls (fade_calls e (int k)) buf"
proof -
  let ?N = "length (leds s)"
  let ?A = "sweep_calls e w (map int [0..<?N])"
  let ?B = "sweep_calls d w (map (\<lambda>j. int ?N - int j) [0..<?N])"
  let ?buf = "apply_calls (concat (map (\<lambda>x. fade_calls e x @ frame_end w)
                 (take k (map int [0..<?N])))) (leds s)"
  have "shown (draw_and_erase d e w s) ! (length (shown s) + k)
          = (frames_of ?A (leds s) @ frames_of ?B (apply_calls ?A (leds s))) ! k"
    by (simp add: draw_and_erase_emit frames_of_append)
  also have "\<dots> = frames_of ?A (leds s) ! k"
    using assms by (simp add: nth_append length_frames_of_sweep)
  also have "\<dots> = apply_calls (fade_calls e (int k)) ?buf"
  proof -
    have "frames_of ?A (leds s)
            = map (\<lambda>i. apply_calls (fade_calls e (map int [0..<?N] ! i))
                     (apply_calls (concat (map (\<lambda>x. fade_calls e x @ frame_end w)
                        (take i (map int [0..<?N])))) (leds s)))
                [0..<length (map int [0..<?N])]"
      unfolding sweep_calls_def by (rule frames_of_concat) simp
    then show ?thesis using assms by simp
  qed
  finally show ?thesis by (intro exI [of _ ?buf]) simp
qed

lemma fade_ramp_values:
  "map (\<lambda>j. float_div (float_of_int (10 - int j)) 10) [0..<10]
     = map fl [1, 9 / 10, 8 / 10, 7 / 10, 6 / 10, 5 / 10, 4 / 10, 3 / 10, 2 / 10, 1 / 10]"
  by code_simp

lemma fade_ramp_decreasing:
  "sorted_wrt (\<lambda>a b. b < a) (map (\<lambda>j. float_div (float_of_int (10 - int j)) 10) [0..<10])"
  by code_simp

lemma leds_new_strip [simp]: "leds (new_strip buf) = buf"
  and trace_new_strip [simp]: "trace (new_strip buf) = []"
  and shown_new_strip [simp]: "shown (new_strip buf) = []"
  by (simp_all add: new_strip_def)

lemma draw_and_erase_frames_slot_0:
  assumes "k < 2 * length (leds s)"
  shows "shown (draw_and_erase d e w s) ! (length (shown s) + k) ! 0 = leds s ! 0"
proof -
  let ?N = "length (leds s)"
  let ?cs = "sweep_calls e w (map int [0..<?N])
             @ sweep_calls d w (map (\<lambda>j. int ?N - int j) [0..<?N])"
  have no: "\<not> list_ex (writes_to (int 0)) ?cs"
    using draw_and_erase_calls_not_0 by simp
  have len: "length (frames_of ?cs (leds s)) = 2 * ?N"
    by (simp add: frames_of_append length_frames_of_sweep)
  have "map (\<lambda>F. F ! 0) (frames_of ?cs (leds s)) ! k = replicate (2 * ?N) (leds s ! 0) ! k"
    using frames_of_other [OF no, of "leds s"] len by simp
  then have "frames_of ?cs (leds s) ! k ! 0 = leds s ! 0"
    using assms len by simp
  then show ?thesis by (simp add: draw_and_erase_emit)
qed

section \<open>Draw and erase: slot 0\<close>

text \<open>
  Claim C10. \<open>draw_and_erase\<close> never writes slot 0, in either pass: no call it adds to
  the trace sets pixel 0, every one of the \<open>2 * N\<close> frames it shows has in slot 0 the
  colour the slot held before the call, and so has the buffer it returns.
\<close>

theorem draw_and_erase_never_writes_slot_0:
  "filter (writes_to 0) (drop (length (trace s)) (trace (draw_and_erase d e w s))) = []
   \<and> map (\<lambda>F. F ! 0) (drop (length (shown s)) (shown (draw_and_erase d e w s)))
       = replicate (2 * length (leds s)) (leds s ! 0)
   \<and> leds (draw_and_erase d e w s) ! 0 = leds s ! 0"
proof -
  let ?N = "length (leds s)"
  let ?cs = "sweep_calls e w (map int [0..<?N])
             @ sweep_calls d w (map (\<lambda>j. int ?N - int j) [0..<?N])"
  have no: "\<not> list_ex (writes_to (int 0)) ?cs"
    using draw_and_erase_calls_not_0 by simp
  have len: "length (frames_of ?cs (leds s)) = 2 * ?N"
    by (simp add: frames_of_append length_frames_of_sweep)
  have "filter (writes_to 0) ?cs = []"
    using no by (simp add: filter_empty_conv list_ex_iff)
  moreover have "map (\<lambda>F. F ! 0) (frames_of ?cs (leds s)) = replicate (2 * ?N) (leds s ! 0)"
    using frames_of_other [OF no, of "leds s"] len by simp
  moreover have "apply_calls ?cs (leds s) ! 0 = leds s ! 0"
    by (rule apply_calls_other [OF no])
  ultimately show ?thesis by (simp add: draw_and_erase_emit)
qed

section \<open>Draw and erase: the fading window\<close>




section \<open>Pulse\<close>

lemma apply_fill_calls:
  "n \<le> length buf \<Longrightarrow>
     apply_calls (fill_calls color b n) buf
       = replicate n (alter_brightness color b) @ drop n buf"
proof (induction n)
  case 0
  then show ?case by (simp add: fill_calls_def)
next
  case (Suc n)
  let ?v = "alter_brightness color b"
  have d: "drop n buf = buf ! n # drop (Suc n) buf"
    using Suc.prems by (simp add: Cons_nth_drop_Suc)
  have "apply_calls (fill_calls color b (Suc n)) buf
          = apply_call (SetPixelColor (int n) ?v) (apply_calls (fill_calls color b n) buf)"
    by (simp add: fill_calls_def)
  also have "\<dots> = (replicate n ?v @ drop n buf)[n := ?v]"
    using Suc by simp
  also have "\<dots> = replicate n ?v @ ?v # drop (Suc n) buf"
    by (simp add: list_update_append d)
  also have "\<dots> = replicate (Suc n) ?v @ drop (Suc n) buf"
    by (simp add: replicate_app_Cons_same)
  finally show ?case .
qed

lemma apply_fill_calls_all:
  "apply_calls (fill_calls color b (length buf)) buf
     = replicate (length buf) (alter_brightness color b)"
  by (simp add: apply_fill_calls)

lemma frames_of_fills:
  "length buf = n \<Longrightarrow>
     frames_of (concat (map (\<lambda>b. fill_calls color (g b) n @ frame_end w) bs)) buf
       = map (\<lambda>b. replicate n (alter_brightness color (g b))) bs"
proof (induction bs arbitrary: buf)
  case Nil
  then show ?case by simp
next
  case (Cons b bs)
  have "apply_calls (fill_calls color (g b) n) buf = replicate n (alter_brightness color (g b))"
    using Cons.prems apply_fill_calls_all [of color "g b" buf] by simp
  then show ?case
    using Cons by (simp add: frames_of_append frames_of_writes)
qed

lemma pulse_range_up: "py_range 1 10 1 = [1, 2, 3, 4, 5, 6, 7, 8, 9]"
  by code_simp

lemma pulse_range_down: "py_range 10 1 (- 1) = [10, 9, 8, 7, 6, 5, 4, 3, 2]"
  by code_simp

lemma pulse_emit:
  "pulse color w s
     = emit (concat (map (\<lambda>b. fill_calls color (int_truediv b 10) (length (leds s)) @ frame_end w)
                       [1, 2, 3, 4, 5, 6, 7, 8, 9, 10, 9, 8, 7, 6, 5, 4, 3, 2])) s"
proof -
  let ?F = "\<lambda>b. fill_calls color (int_truediv b 10) (length (leds s)) @ frame_end w"
  let ?up = "[1, 2, 3, 4, 5, 6, 7, 8, 9] :: int list"
  let ?down = "[10, 9, 8, 7, 6, 5, 4, 3, 2] :: int list"
  have up: "fold (pulse_frame color w) ?up s = emit (concat (map ?F ?up)) s"
    by (rule pulse_frames_emit)
  have "fold (pulse_frame color w) ?down (emit (concat (map ?F ?up)) s)
          = emit (concat (map (\<lambda>b. fill_calls color (int_truediv b 10)
                                       (length (leds (emit (concat (map ?F ?up)) s)))
                                     @ frame_end w) ?down))
              (emit (concat (map ?F ?up)) s)"
    by (rule pulse_frames_emit)
  also have "\<dots> = emit (concat (map ?F ?down)) (emit (concat (map ?F ?up)) s)"
    by (simp only: leds_emit length_apply_calls)
  also have "\<dots> = emit (concat (map ?F ?up) @ concat (map ?F ?down)) s"
    by (rule emit_emit)
  also have "concat (map ?F ?up) @ concat (map ?F ?down) = concat (map ?F (?up @ ?down))"
    by (simp only: map_append concat_append)
  finally have "fold (pulse_frame color w) ?down (fold (pulse_frame color w) ?up s)
          = emit (concat (map ?F (?up @ ?down))) s"
    by (simp only: up)
  then show ?thesis
    by (simp only: pulse_def pulse_range_up pulse_range_down append.simps)
qed

text \<open>
  Claim C2, as amended. For every colour and every strip, one call of \<open>pulse\<close> adds
  exactly 18 frames to the trace, one per brightness step 1, 2, ..., 9, 10, 9, ..., 2:
  each frame sets pixels 0 to \<open>N - 1\<close> in turn to the colour at brightness step/10 and
  then shows and sleeps once, so each of the 18 buffers shown is uniform. The
  brightnesses are the doubles nearest 0.1, ..., 0.9, then 1.0, then 0.9, ..., 0.2: nine
  frames up, nine down, one of them at full brightness and the last at 0.2.
\<close>

theorem pulse_frames:
  "trace (pulse color wait_ms s)
     = trace s
       @ concat (map (\<lambda>b. fill_calls color (int_truediv b 10) (length (leds s))
                           @ frame_end wait_ms)
                   [1, 2, 3, 4, 5, 6, 7, 8, 9, 10, 9, 8, 7, 6, 5, 4, 3, 2])
   \<and> shown (pulse color wait_ms s)
     = shown s
       @ map (\<lambda>b. replicate (length (leds s)) (alter_brightness color (int_truediv b 10)))
           [1, 2, 3, 4, 5, 6, 7, 8, 9, 10, 9, 8, 7, 6, 5, 4, 3, 2]
   \<and> map (\<lambda>b. int_truediv b 10) [1, 2, 3, 4, 5, 6, 7, 8, 9, 10, 9, 8, 7, 6, 5, 4, 3, 2]
     = map fl [1 / 10, 2 / 10, 3 / 10, 4 / 10, 5 / 10, 6 / 10, 7 / 10, 8 / 10, 9 / 10, 1,
               9 / 10, 8 / 10, 7 / 10, 6 / 10, 5 / 10, 4 / 10, 3 / 10, 2 / 10]"
proof (intro conjI)
  show "trace (pulse color wait_ms s)
     = trace s
       @ concat (map (\<lambda>b. fill_calls color (int_truediv b 10) (length (leds s))
                           @ frame_end wait_ms)
                   [1, 2, 3, 4, 5, 6, 7, 8, 9, 10, 9, 8, 7, 6, 5, 4, 3, 2])"
    by (simp only: pulse_emit trace_emit)
  show "shown (pulse color wait_ms s)
     = shown s
       @ map (\<lambda>b. replicate (length (leds s)) (alter_brightness color (int_truediv b 10)))
           [1, 2, 3, 4, 5, 6, 7, 8, 9, 10, 9, 8, 7, 6, 5, 4, 3, 2]"
    by (simp only: pulse_emit shown_emit frames_of_fills [OF refl])
  show "map (\<lambda>b. int_truediv b 10) [1, 2, 3, 4, 5, 6, 7, 8, 9, 10, 9, 8, 7, 6, 5, 4, 3, 2]
     = map fl [1 / 10, 2 / 10, 3 / 10, 4 / 10, 5 / 10, 6 / 10, 7 / 10, 8 / 10, 9 / 10, 1,
               9 / 10, 8 / 10, 7 / 10, 6 / 10, 5 / 10, 4 / 10, 3 / 10, 2 / 10]"
    by code_simp
qed

text \<open>
  Claim C2 as stated fails: on a strip of one pixel, \<^verbatim>\<open>pulse(CRYSTAL_RED)\<close> shows 18
  frames, not 17; the tenth is at brightness 1.0, the colour itself; and the last is at
  brightness 0.2, which differs from the colour at 0.1.
\<close>

theorem pulse_has_18_frames:
  "length (shown (pulse CRYSTAL_RED 50 (new_strip [0]))) = 18
   \<and> shown (pulse CRYSTAL_RED 50 (new_strip [0])) ! 9 = [color_value CRYSTAL_RED]
   \<and> shown (pulse CRYSTAL_RED 50 (new_strip [0])) ! 17 = [alter_brightness CRYSTAL_RED (fl (2 / 10))]
   \<and> alter_brightness CRYSTAL_RED (fl (2 / 10)) \<noteq> alter_brightness CRYSTAL_RED (fl (1 / 10))"
proof -
  have b10: "int_truediv 10 10 = 1" by code_simp
  have b2: "int_truediv 2 10 = fl (2 / 10)" by code_simp
  have ne: "alter_brightness CRYSTAL_RED (fl (2 / 10)) \<noteq> alter_brightness CRYSTAL_RED (fl (1 / 10))"
    by code_simp
  have "shown (pulse CRYSTAL_RED 50 (new_strip [0]))
          = shown (new_strip [0])
            @ map (\<lambda>b. replicate (length (leds (new_strip [0])))
                         (alter_brightness CRYSTAL_RED (int_truediv b 10)))
                [1, 2, 3, 4, 5, 6, 7, 8, 9, 10, 9, 8, 7, 6, 5, 4, 3, 2]"
    by (simp only: pulse_emit shown_emit frames_of_fills [OF refl])
  then show ?thesis
    using ne by (simp add: b10 b2 alter_brightness_full del: color_value.simps)
qed

section \<open>Setting one pixel\<close>

text \<open>
  Claim C4. \<open>set_pixel_color index color brightness\<close> hands the strip the index and
  \<open>alter_brightness color brightness\<close>. With the strip library as modelled from the
  spec, an index in \<open>[0, N)\<close> has that value written into its slot, and any other index
  leaves every slot unchanged; in both cases the number of pixels is unchanged and
  nothing is shown.
\<close>

theorem set_pixel_color_in_and_out_of_range:
  "(0 \<le> index \<and> index < numPixels s \<longrightarrow>
      leds (set_pixel_color index color brightness s)
        = (leds s)[nat index := alter_brightness color brightness]
      \<and> leds (set_pixel_color index color brightness s) ! nat index
        = alter_brightness color brightness)
   \<and> (\<not> (0 \<le> index \<and> index < numPixels s) \<longrightarrow>
        leds (set_pixel_color index color brightness s) = leds s)
   \<and> numPixels (set_pixel_color index color brightness s) = numPixels s
   \<and> shown (set_pixel_color index color brightness s) = shown s"
  by (auto simp: set_pixel_color_def setPixelColor_def numPixels_def)

text \<open>
  On a dark strip of three pixels: index 1 is in range and receives the colour; index 3
  is out of range and the buffer stays dark.
\<close>

theorem set_pixel_color_in_and_out_of_range_witness:
  "(0::int) \<le> 1 \<and> 1 < numPixels (new_strip [0, 0, 0])
   \<and> leds (set_pixel_color 1 CRYSTAL_RED 1 (new_strip [0, 0, 0])) = [0, color_value CRYSTAL_RED, 0]
   \<and> \<not> (0 \<le> (3::int) \<and> 3 < numPixels (new_strip [0, 0, 0]))
   \<and> leds (set_pixel_color 3 CRYSTAL_RED 1 (new_strip [0, 0, 0])) = [0, 0, 0]"
proof -
  let ?s = "new_strip [0, 0, 0]"
  have h1: "(0::int) \<le> 1 \<and> 1 < numPixels ?s" by (simp add: numPixels_def)
  have h3: "\<not> (0 \<le> (3::int) \<and> 3 < numPixels ?s)" by (simp add: numPixels_def)
  have "leds (set_pixel_color 1 CRYSTAL_RED 1 ?s) = (leds ?s)[nat 1 := alter_brightness CRYSTAL_RED 1]"
    using set_pixel_color_in_and_out_of_range [of 1 ?s CRYSTAL_RED 1] h1 by blast
  then have a: "leds (set_pixel_color 1 CRYSTAL_RED 1 ?s) = [0, color_value CRYSTAL_RED, 0]"
    by (simp add: alter_brightness_full del: color_value.simps)
  have "leds (set_pixel_color 3 CRYSTAL_RED 1 ?s) = leds ?s"
    using set_pixel_color_in_and_out_of_range [of 3 ?s CRYSTAL_RED 1] h3 by blast
  then have b: "leds (set_pixel_color 3 CRYSTAL_RED 1 ?s) = [0, 0, 0]" by simp
  show ?thesis using h1 h3 a b by blast
qed

section \<open>Vapor trail, frame by frame\<close>

lemma length_frames_of_frames:
  assumes "\<And>x. list_all is_write (W x)"
  shows "length (frames_of (concat (map (\<lambda>x. W x @ frame_end w) xs)) buf) = length xs"
  by (simp add: frames_of_concat [of W, OF assms])

lemma vapor_trail_frame:
  assumes "h < length (leds s)"
  shows "\<exists>buf. length buf = length (leds s)
           \<and> shown (vapor_trail C t T w s) ! (length (shown s) + h)
               = apply_calls (vapor_calls C t T (int (length (leds s))) (int h)) buf"
proof -
  let ?N = "length (leds s)"
  let ?W = "vapor_calls C t T (int ?N)"
  let ?buf = "apply_calls (concat (map (\<lambda>x. ?W x @ frame_end w)
                 (take h (map int [0..<?N])))) (leds s)"
  have fr: "frames_of (concat (map (\<lambda>x. ?W x @ frame_end w) (map int [0..<?N]))) (leds s)
            = map (\<lambda>i. apply_calls (?W (map int [0..<?N] ! i))
                     (apply_calls (concat (map (\<lambda>x. ?W x @ frame_end w)
                        (take i (map int [0..<?N])))) (leds s)))
                [0..<length (map int [0..<?N])]"
    by (rule frames_of_concat) simp
  have "shown (vapor_trail C t T w s) ! (length (shown s) + h)
          = frames_of (concat (map (\<lambda>x. ?W x @ frame_end w) (map int [0..<?N]))) (leds s) ! h"
    by (simp only: vapor_trail_emit shown_emit nth_append_length_plus)
  also have "\<dots> = apply_calls (?W (int h)) ?buf"
    unfolding fr using assms by simp
  finally show ?thesis by (intro exI [of _ ?buf]) simp
qed

lemma length_shown_vapor_trail:
  "length (shown (vapor_trail C t T w s)) = length (shown s) + length (leds s)"
proof -
  have "length (frames_of (concat (map (\<lambda>x. vapor_calls C t T (int (length (leds s))) x
                                          @ frame_end w)
                                     (map int [0..<length (leds s)]))) (leds s))
          = length (map int [0..<length (leds s)])"
    by (rule length_frames_of_frames) simp
  then show ?thesis by (simp add: vapor_trail_emit)
qed

lemma vapor_calls_head:
  assumes "h < length buf"
  shows "apply_calls (vapor_calls C t T n (int h)) buf ! h = color_value T"
proof -
  have no: "\<not> list_ex (writes_to (int h)) []" by simp
  show ?thesis unfolding vapor_calls_def by (rule apply_calls_last_write [OF assms no])
qed

lemma mod_shift_neq:
  fixes h d n :: int
  assumes "0 < d" and "d < n"
  shows "(h + d + a) mod n \<noteq> (h + a) mod n"
proof
  assume "(h + d + a) mod n = (h + a) mod n"
  then have "n dvd (h + d + a) - (h + a)" by (simp only: mod_eq_dvd_iff)
  then have "n dvd d" by simp
  then have "n \<le> d" using assms(1) by (rule zdvd_imp_le)
  then show False using assms(2) by simp
qed

lemma vapor_calls_trail:
  assumes "h < length buf" and "0 < off" and "int off < t" and "t \<le> int (length buf)"
  shows "apply_calls (vapor_calls C t T (int (length buf)) (int h)) buf
           ! nat ((int h + int off) mod int (length buf))
         = alter_brightness C (float_div (float_of_int (int off)) (float_of_int t))"
proof -
  let ?n = "int (length buf)"
  let ?W = "\<lambda>off. SetPixelColor ((int h + int off) mod ?n)
                    (alter_brightness C (float_div (float_of_int (int off)) (float_of_int t)))"
  let ?q = "nat ((int h + int off) mod ?n)"
  have n: "0 < ?n" using assms(1) by (cases buf) simp_all
  have q: "int ?q = (int h + int off) mod ?n" using n by simp
  have ql: "?q < length buf" using n by (simp add: nat_less_iff)
  have lt: "off < nat t" using assms by simp
  have eq: "vapor_calls C t T ?n (int h)
          = map ?W [0..<off] @ SetPixelColor (int ?q)
              (alter_brightness C (float_div (float_of_int (int off)) (float_of_int t)))
            # (map ?W [Suc off..<nat t] @ [SetPixelColor (int h) (color_value T)])"
    unfolding vapor_calls_def q using upt_split [OF lt] by simp
  have later: "(int h + int o') mod ?n \<noteq> (int h + int off) mod ?n"
    if "Suc off \<le> o'" and "o' < nat t" for o'
  proof -
    have "(int h + (int o' - int off) + int off) mod ?n \<noteq> (int h + int off) mod ?n"
      using that assms by (intro mod_shift_neq) simp_all
    then show ?thesis by (simp add: algebra_simps)
  qed
  have "(int h + int off + 0) mod ?n \<noteq> (int h + 0) mod ?n"
    using assms by (intro mod_shift_neq) simp_all
  then have head: "int h \<noteq> (int h + int off) mod ?n"
    using assms(1) by simp
  have no: "\<not> list_ex (writes_to (int ?q))
              (map ?W [Suc off..<nat t] @ [SetPixelColor (int h) (color_value T)])"
    unfolding q using later head by (auto simp: list_ex_iff)
  show ?thesis unfolding eq by (rule apply_calls_last_write [OF ql no])
qed

lemma vapor_half: "float_div (float_of_int 5) (float_of_int 10) = 1 / 2"
  by code_simp

text \<open>
  Claim C5. For every colour \<open>C\<close>, trail length \<open>t\<close> and trail colour \<open>T\<close>, one call of
  \<open>vapor_trail\<close> on a strip of \<open>N\<close> pixels issues, for each head position \<open>h\<close> from 0 to
  \<open>N - 1\<close> in turn, the calls \<open>vapor_calls C t T N h\<close> followed by one show and one sleep;
  \<open>vapor_calls\<close> sets, for offset 0 to \<open>t - 1\<close>, pixel \<open>(h + offset) mod N\<close> to \<open>C\<close> at
  brightness \<open>offset / t\<close>, and then pixel \<open>h\<close> to \<open>T\<close>. The call shows \<open>N\<close> frames. When
  \<open>1 \<le> t \<le> N\<close>, the frame shown at head \<open>h\<close> has \<open>T\<close> in pixel \<open>h\<close> and \<open>C\<close> at brightness
  \<open>offset / t\<close> in pixel \<open>(h + offset) mod N\<close> for every offset from 1 to \<open>t - 1\<close>. In
  particular on 150 pixels with \<open>t = 10\<close>, the frame at head \<open>h\<close> has \<open>C\<close> at brightness
  0.5 in pixel \<open>(h + 5) mod 150\<close> and \<open>T\<close> in pixel \<open>h\<close>.
\<close>

theorem vapor_trail_frames:
  "trace (vapor_trail C t T w s)
     = trace s
       @ concat (map (\<lambda>h. vapor_calls C t T (int (length (leds s))) (int h) @ frame_end w)
                   [0..<length (leds s)])
   \<and> (\<forall>n h. vapor_calls C t T n h
        = map (\<lambda>off. SetPixelColor ((h + int off) mod n)
                 (alter_brightness C (float_div (float_of_int (int off)) (float_of_int t))))
            [0..<nat t]
          @ [SetPixelColor h (color_value T)])
   \<and> frame_end w = [Show, Sleep (delay w)]
   \<and> length (shown (vapor_trail C t T w s)) = length (shown s) + length (leds s)
   \<and> (1 \<le> t \<and> t \<le> int (length (leds s)) \<longrightarrow>
        (\<forall>h < length (leds s).
           shown (vapor_trail C t T w s) ! (length (shown s) + h) ! h = color_value T
           \<and> (\<forall>off. 0 < off \<and> int off < t \<longrightarrow>
                shown (vapor_trail C t T w s) ! (length (shown s) + h)
                  ! nat ((int h + int off) mod int (length (leds s)))
                = alter_brightness C (float_div (float_of_int (int off)) (float_of_int t)))))
   \<and> (length (leds s) = 150 \<longrightarrow>
        (\<forall>h < 150.
           shown (vapor_trail C 10 T w s) ! (length (shown s) + h) ! ((h + 5) mod 150)
             = alter_brightness C (1 / 2)
           \<and> shown (vapor_trail C 10 T w s) ! (length (shown s) + h) ! h = color_value T))"
proof (intro conjI allI impI)
  show "trace (vapor_trail C t T w s)
     = trace s
       @ concat (map (\<lambda>h. vapor_calls C t T (int (length (leds s))) (int h) @ frame_end w)
                   [0..<length (leds s)])"
    by (simp add: vapor_trail_emit o_def)
  show "vapor_calls C t T n h
        = map (\<lambda>off. SetPixelColor ((h + int off) mod n)
                 (alter_brightness C (float_div (float_of_int (int off)) (float_of_int t))))
            [0..<nat t]
          @ [SetPixelColor h (color_value T)]" for n h
    by (simp only: vapor_calls_def)
  show "frame_end w = [Show, Sleep (delay w)]"
    by (simp only: frame_end_def)
  show "length (shown (vapor_trail C t T w s)) = length (shown s) + length (leds s)"
    by (rule length_shown_vapor_trail)
next
  fix h
  assume t: "1 \<le> t \<and> t \<le> int (length (leds s))" and h: "h < length (leds s)"
  obtain buf where len: "length buf = length (leds s)"
    and fr: "shown (vapor_trail C t T w s) ! (length (shown s) + h)
               = apply_calls (vapor_calls C t T (int (length (leds s))) (int h)) buf"
    using vapor_trail_frame [OF h, of C t T w] by blast
  show "shown (vapor_trail C t T w s) ! (length (shown s) + h) ! h = color_value T"
    unfolding fr using h len by (intro vapor_calls_head) simp
  fix off
  assume off: "0 < off \<and> int off < t"
  have "apply_calls (vapor_calls C t T (int (length buf)) (int h)) buf
           ! nat ((int h + int off) mod int (length buf))
         = alter_brightness C (float_div (float_of_int (int off)) (float_of_int t))"
    using h len t off by (intro vapor_calls_trail) simp_all
  then show "shown (vapor_trail C t T w s) ! (length (shown s) + h)
                  ! nat ((int h + int off) mod int (length (leds s)))
                = alter_brightness C (float_div (float_of_int (int off)) (float_of_int t))"
    unfolding fr len .
next
  fix h :: nat
  assume N: "length (leds s) = 150" and h: "h < 150"
  have h': "h < length (leds s)" using N h by simp
  obtain buf where len: "length buf = 150"
    and fr: "shown (vapor_trail C 10 T w s) ! (length (shown s) + h)
               = apply_calls (vapor_calls C 10 T (int (length (leds s))) (int h)) buf"
    using vapor_trail_frame [OF h', of C 10 T w] N by auto
  have q: "nat ((int h + 5) mod 150) = (h + 5) mod 150"
    by (simp add: nat_mod_distrib nat_add_distrib)
  have "apply_calls (vapor_calls C 10 T (int (length buf)) (int h)) buf
           ! nat ((int h + int 5) mod int (length buf))
         = alter_brightness C (float_div (float_of_int (int 5)) (float_of_int 10))"
    using h len by (intro vapor_calls_trail) simp_all
  then show "shown (vapor_trail C 10 T w s) ! (length (shown s) + h) ! ((h + 5) mod 150)
             = alter_brightness C (1 / 2)"
    unfolding fr N len using vapor_half q by simp
  show "shown (vapor_trail C 10 T w s) ! (length (shown s) + h) ! h = color_value T"
    unfolding fr using h len by (intro vapor_calls_head) simp
qed

lemma half_red: "alter_brightness CRYSTAL_RED (1 / 2) = 8323072"
  by code_simp

text \<open>
  On a dark strip of 150 pixels, with red as the colour, a trail of 10 and white as
  the trail colour: in the frame at head 147 the window wraps round the end of the
  strip, pixel 2 holds red at brightness 0.5, pixel 0 holds red at brightness 3/10 and
  pixel 147 is white.
\<close>

theorem vapor_trail_frames_witness:
  "(1::int) \<le> 10 \<and> 10 \<le> int (length (leds (new_strip (replicate 150 0))))
   \<and> length (leds (new_strip (replicate 150 0))) = 150
   \<and> (147::nat) < 150 \<and> (0::nat) < 3 \<and> int 3 < 10
   \<and> shown (vapor_trail CRYSTAL_RED 10 PURE_WHITE 50 (new_strip (replicate 150 0))) ! 147 ! 2
       = 8323072
   \<and> shown (vapor_trail CRYSTAL_RED 10 PURE_WHITE 50 (new_strip (replicate 150 0))) ! 147 ! 0
       = alter_brightness CRYSTAL_RED (float_div (float_of_int 3) (float_of_int 10))
   \<and> shown (vapor_trail CRYSTAL_RED 10 PURE_WHITE 50 (new_strip (replicate 150 0))) ! 147 ! 147
       = color_value PURE_WHITE"
proof -
  let ?s = "new_strip (replicate 150 0)"
  let ?F = "\<lambda>h. shown (vapor_trail CRYSTAL_RED 10 PURE_WHITE 50 ?s) ! (length (shown ?s) + h)"
  have N: "length (leds ?s) = 150" by simp
  have sh: "length (shown ?s) = 0" by simp
  have t: "(1::int) \<le> 10 \<and> 10 \<le> int (length (leds ?s))" by simp
  note frames = vapor_trail_frames [of CRYSTAL_RED 10 PURE_WHITE 50 ?s]
  from frames N have
    "\<forall>h < 150. ?F h ! ((h + 5) mod 150) = alter_brightness CRYSTAL_RED (1 / 2)
               \<and> ?F h ! h = color_value PURE_WHITE"
    by blast
  then have "?F 147 ! ((147 + 5) mod 150) = alter_brightness CRYSTAL_RED (1 / 2)
             \<and> ?F 147 ! 147 = color_value PURE_WHITE"
    by (rule allE [of _ 147]) simp
  then have a: "?F 147 ! 2 = 8323072 \<and> ?F 147 ! 147 = color_value PURE_WHITE"
    by (simp add: half_red del: color_value.simps)
  from frames t have
    "\<forall>h < length (leds ?s). ?F h ! h = color_value PURE_WHITE
       \<and> (\<forall>off. 0 < off \<and> int off < 10 \<longrightarrow>
             ?F h ! nat ((int h + int off) mod int (length (leds ?s)))
               = alter_brightness CRYSTAL_RED
                   (float_div (float_of_int (int off)) (float_of_int 10)))"
    by blast
  then have "\<forall>off. 0 < off \<and> int off < 10 \<longrightarrow>
             ?F 147 ! nat ((int 147 + int off) mod int (length (leds ?s)))
               = alter_brightness CRYSTAL_RED
                   (float_div (float_of_int (int off)) (float_of_int 10))"
    unfolding N by (rule allE [of _ 147]) simp
  then have "?F 147 ! nat ((int 147 + int 3) mod int (length (leds ?s)))
               = alter_brightness CRYSTAL_RED
                   (float_div (float_of_int (int 3)) (float_of_int 10))"
    by (rule allE [of _ 3]) simp
  then have b: "?F 147 ! 0
               = alter_brightness CRYSTAL_RED (float_div (float_of_int 3) (float_of_int 10))"
    by simp
  show ?thesis using a b t N unfolding sh by (simp del: color_value.simps)
qed

section \<open>Christmas colours\<close>

lemma christmas_colors_emit:
  "christmas_colors w s
     = emit (concat (map christmas_calls (py_range 0 (int (length (leds s))) 3))
             @ frame_end w @ frame_end w) s"
proof -
  let ?body = "\<lambda>i s. set_pixel_color (i + 2) CRYSTAL_GREEN (fl (4 / 10))
                        (set_pixel_color (i + 1) CRYSTAL_RED (fl (4 / 10))
                          (set_pixel_color i PURE_WHITE (fl (4 / 10)) s))"
  have "fold ?body (py_range 0 (num_pixels s) 3) s
          = emit (concat (map ((\<lambda>n. christmas_calls) (num_pixels s))
                            (py_range 0 (num_pixels s) 3))) s"
    by (rule fold_emit) (simp add: set_pixel_color_emit emit_emit christmas_calls_def)
  then show ?thesis
    by (simp add: christmas_colors_def Let_def show_with_delay_emit emit_emit frame_end_def
        num_pixels_def numPixels_def)
qed

lemma py_range_by_3: "py_range 0 (3 * int m) 3 = map (\<lambda>k. 3 * int k) [0..<m]"
proof -
  have "(3 * int m - 0 + 3 - 1) div 3 = int m" by simp
  then show ?thesis by (simp add: py_range_def)
qed

lemma triples_apply:
  assumes "3 * m \<le> length buf" and "q < length buf"
  shows "apply_calls (concat (map (\<lambda>k. [SetPixelColor (3 * int k) a,
                                        SetPixelColor (3 * int k + 1) b,
                                        SetPixelColor (3 * int k + 2) c]) [0..<m])) buf ! q
           = (if q < 3 * m then (if q mod 3 = 0 then a else if q mod 3 = 1 then b else c)
              else buf ! q)"
  using assms
proof (induction m)
  case 0
  then show ?case by simp
next
  case (Suc m)
  let ?T = "\<lambda>k. [SetPixelColor (3 * int k) a, SetPixelColor (3 * int k + 1) b,
                  SetPixelColor (3 * int k + 2) c]"
  let ?b = "apply_calls (concat (map ?T [0..<m])) buf"
  have len: "length ?b = length buf" by simp
  have IH: "?b ! q = (if q < 3 * m then (if q mod 3 = 0 then a else if q mod 3 = 1 then b else c)
                      else buf ! q)"
    using Suc by simp
  have i0: "nat (3 * int m) = 3 * m" and i1: "nat (3 * int m + 1) = 3 * m + 1"
    and i2: "nat (3 * int m + 2) = 3 * m + 2"
    by (simp_all add: nat_add_distrib nat_mult_distrib)
  have in_range: "3 * m + 2 < length buf" using Suc.prems by simp
  have step: "apply_calls (concat (map ?T [0..<Suc m])) buf ! q
          = ?b[3 * m := a, 3 * m + 1 := b, 3 * m + 2 := c] ! q"
    using in_range len by (simp add: i0 i1 i2)
  have m0: "(3 * m) mod 3 = 0" by simp
  have m1: "(3 * m + 1) mod 3 = 1" by presburger
  have m2: "(3 * m + 2) mod 3 = 2" by presburger
  consider "q < 3 * m" | "q = 3 * m" | "q = 3 * m + 1" | "q = 3 * m + 2" | "3 * m + 2 < q"
    by linarith
  then show ?case
  proof cases
    case 1
    then show ?thesis unfolding step using IH by simp
  next
    case 2
    then show ?thesis unfolding step using len in_range m0 by simp
  next
    case 3
    then show ?thesis unfolding step using len in_range m1 by simp
  next
    case 4
    then show ?thesis unfolding step using len in_range m2 by simp
  next
    case 5
    then show ?thesis unfolding step using IH by simp
  qed
qed

lemma christmas_calls_apply:
  assumes "3 * m \<le> length buf" and "q < length buf"
  shows "apply_calls (concat (map christmas_calls (map (\<lambda>k. 3 * int k) [0..<m]))) buf ! q
           = (if q < 3 * m
              then (if q mod 3 = 0 then alter_brightness PURE_WHITE (fl (4 / 10))
                    else if q mod 3 = 1 then alter_brightness CRYSTAL_RED (fl (4 / 10))
                    else alter_brightness CRYSTAL_GREEN (fl (4 / 10)))
              else buf ! q)"
proof -
  have "map christmas_calls (map (\<lambda>k. 3 * int k) [0..<m])
          = map (\<lambda>k. [SetPixelColor (3 * int k) (alter_brightness PURE_WHITE (fl (4 / 10))),
                       SetPixelColor (3 * int k + 1) (alter_brightness CRYSTAL_RED (fl (4 / 10))),
                       SetPixelColor (3 * int k + 2) (alter_brightness CRYSTAL_GREEN (fl (4 / 10)))])
              [0..<m]"
    by (simp only: map_map o_def christmas_calls_def)
  then show ?thesis by (simp only: triples_apply [OF assms])
qed

lemma christmas_white: "alter_brightness PURE_WHITE (fl (4 / 10)) = 6710886"
  by code_simp

lemma christmas_red: "alter_brightness CRYSTAL_RED (fl (4 / 10)) = 6684672"
  by code_simp

lemma christmas_green: "alter_brightness CRYSTAL_GREEN (fl (4 / 10)) = 26112"
  by code_simp

text \<open>
  Claim C8. One call of \<open>christmas_colors\<close> issues, for each \<open>i\<close> of
  \<^verbatim>\<open>range(0, N, 3)\<close>, the three writes \<open>christmas_calls i\<close> (pixel \<open>i\<close> pure white, pixel
  \<open>i + 1\<close> red, pixel \<open>i + 2\<close> green, each at brightness 0.4), and then exactly a show, a
  sleep, a second show and a second sleep of the same delay, with no write between the
  two shows: both frames shown are the final buffer. When \<open>N\<close> is a multiple of 3, every
  pixel \<open>q\<close> of that buffer holds white, red or green at brightness 0.4 according to
  \<open>q mod 3\<close> being 0, 1 or 2.
\<close>

theorem christmas_colors_cycle:
  "trace (christmas_colors w s)
     = trace s
       @ concat (map christmas_calls (py_range 0 (int (length (leds s))) 3))
       @ [Show, Sleep (delay w), Show, Sleep (delay w)]
   \<and> (\<forall>i. christmas_calls i
        = [SetPixelColor i (alter_brightness PURE_WHITE (fl (4 / 10))),
           SetPixelColor (i + 1) (alter_brightness CRYSTAL_RED (fl (4 / 10))),
           SetPixelColor (i + 2) (alter_brightness CRYSTAL_GREEN (fl (4 / 10)))])
   \<and> shown (christmas_colors w s)
     = shown s @ [leds (christmas_colors w s), leds (christmas_colors w s)]
   \<and> length (leds (christmas_colors w s)) = length (leds s)
   \<and> (length (leds s) mod 3 = 0 \<longrightarrow>
        (\<forall>q < length (leds s).
           leds (christmas_colors w s) ! q
             = (if q mod 3 = 0 then alter_brightness PURE_WHITE (fl (4 / 10))
                else if q mod 3 = 1 then alter_brightness CRYSTAL_RED (fl (4 / 10))
                else alter_brightness CRYSTAL_GREEN (fl (4 / 10)))))"
proof (intro conjI allI impI)
  let ?cs = "concat (map christmas_calls (py_range 0 (int (length (leds s))) 3))"
  show "trace (christmas_colors w s) = trace s @ ?cs @ [Show, Sleep (delay w), Show, Sleep (delay w)]"
    by (simp add: christmas_colors_emit frame_end_def)
  show "christmas_calls i
        = [SetPixelColor i (alter_brightness PURE_WHITE (fl (4 / 10))),
           SetPixelColor (i + 1) (alter_brightness CRYSTAL_RED (fl (4 / 10))),
           SetPixelColor (i + 2) (alter_brightness CRYSTAL_GREEN (fl (4 / 10)))]" for i
    by (simp only: christmas_calls_def)
  have w: "list_all is_write ?cs"
    by (simp add: list_all_iff christmas_calls_def)
  show "shown (christmas_colors w s)
     = shown s @ [leds (christmas_colors w s), leds (christmas_colors w s)]"
    by (simp add: christmas_colors_emit frames_of_append frames_of_writes [OF w])
  show "length (leds (christmas_colors w s)) = length (leds s)"
    by (simp add: christmas_colors_emit)
next
  fix q
  assume N: "length (leds s) mod 3 = 0" and q: "q < length (leds s)"
  obtain m where m: "length (leds s) = 3 * m" using N by auto
  have "leds (christmas_colors w s) ! q
          = apply_calls (concat (map christmas_calls (map (\<lambda>k. 3 * int k) [0..<m]))) (leds s) ! q"
    by (simp add: christmas_colors_emit m py_range_by_3)
  also have "\<dots> = (if q < 3 * m
              then (if q mod 3 = 0 then alter_brightness PURE_WHITE (fl (4 / 10))
                    else if q mod 3 = 1 then alter_brightness CRYSTAL_RED (fl (4 / 10))
                    else alter_brightness CRYSTAL_GREEN (fl (4 / 10)))
              else leds s ! q)"
    using m q by (intro christmas_calls_apply) simp_all
  finally show "leds (christmas_colors w s) ! q
             = (if q mod 3 = 0 then alter_brightness PURE_WHITE (fl (4 / 10))
                else if q mod 3 = 1 then alter_brightness CRYSTAL_RED (fl (4 / 10))
                else alter_brightness CRYSTAL_GREEN (fl (4 / 10)))"
    using m q by simp
qed

text \<open>
  On a dark strip of six pixels, pixels 3, 4 and 5 end as white, red and green at
  brightness 0.4: the bytes 102, 102, 102, then 102, 0, 0, then 0, 102, 0.
\<close>

theorem christmas_colors_cycle_witness:
  "length (leds (new_strip [0, 0, 0, 0, 0, 0])) mod 3 = 0
   \<and> (4::nat) < length (leds (new_strip [0, 0, 0, 0, 0, 0]))
   \<and> leds (christmas_colors 50 (new_strip [0, 0, 0, 0, 0, 0])) ! 4 = 6684672
   \<and> leds (christmas_colors 50 (new_strip [0, 0, 0, 0, 0, 0])) ! 3 = 6710886
   \<and> leds (christmas_colors 50 (new_strip [0, 0, 0, 0, 0, 0])) ! 5 = 26112"
proof -
  let ?s = "new_strip [0, 0, 0, 0, 0, 0]"
  have N: "length (leds ?s) mod 3 = 0" by simp
  note cycle = christmas_colors_cycle [of 50 ?s]
  from cycle N have all:
    "\<forall>q < length (leds ?s).
       leds (christmas_colors 50 ?s) ! q
         = (if q mod 3 = 0 then alter_brightness PURE_WHITE (fl (4 / 10))
            else if q mod 3 = 1 then alter_brightness CRYSTAL_RED (fl (4 / 10))
            else alter_brightness CRYSTAL_GREEN (fl (4 / 10)))"
    by blast
  have a: "leds (christmas_colors 50 ?s) ! 4 = alter_brightness CRYSTAL_RED (fl (4 / 10))"
    using all by (rule allE [of _ 4]) simp
  have b: "leds (christmas_colors 50 ?s) ! 3 = alter_brightness PURE_WHITE (fl (4 / 10))"
    using all by (rule allE [of _ 3]) simp
  have c: "leds (christmas_colors 50 ?s) ! 5 = alter_brightness CRYSTAL_GREEN (fl (4 / 10))"
    using all by (rule allE [of _ 5]) simp
  show ?thesis using a b c unfolding christmas_white christmas_red christmas_green by simp
qed

section \<open>What a slot holds at a flush\<close>

lemma most_recently_set_unwritten:
  "\<not> list_ex (writes_to (int q)) cs \<Longrightarrow> most_recently_set q cs held = held"
proof (induction cs arbitrary: held)
  case Nil
  then show ?case by simp
next
  case (Cons c cs)
  then show ?case by (cases c) auto
qed

lemma frames_of_most_recently_set:
  assumes "k < length (frames_of cs buf)" and "q < length buf"
  shows "frames_of cs buf ! k ! q = most_recently_set q (calls_before_show k cs) (buf ! q)"
  using assms
proof (induction cs arbitrary: k buf)
  case Nil
  then show ?case by simp
next
  case (Cons c cs)
  show ?case
  proof (cases c)
    case (SetPixelColor n v)
    have "frames_of cs (apply_call c buf) ! k ! q
            = most_recently_set q (calls_before_show k cs) (apply_call c buf ! q)"
      using Cons.prems SetPixelColor by (intro Cons.IH) simp_all
    moreover have "apply_call c buf ! q = (if n = int q then v else buf ! q)"
      using Cons.prems(2) SetPixelColor by (auto simp: nth_list_update)
    ultimately show ?thesis using SetPixelColor by simp
  next
    case Show
    show ?thesis
    proof (cases k)
      case 0
      then show ?thesis using Show by simp
    next
      case (Suc j)
      have "frames_of cs buf ! j ! q = most_recently_set q (calls_before_show j cs) (buf ! q)"
        using Cons.prems Show Suc by (intro Cons.IH) simp_all
      then show ?thesis using Show Suc by simp
    qed
  next
    case (Sleep t)
    have "frames_of cs buf ! k ! q = most_recently_set q (calls_before_show k cs) (buf ! q)"
      using Cons.prems Sleep by (intro Cons.IH) simp_all
    then show ?thesis using Sleep by simp
  qed
qed

lemma emit_most_recently_set:
  assumes "P = emit cs s" and "k < length (frames_of cs (leds s))" and "q < length (leds s)"
  shows "shown P ! (length (shown s) + k) ! q
           = most_recently_set q (calls_before_show k (drop (length (trace s)) (trace P)))
               (leds s ! q)"
  using frames_of_most_recently_set [OF assms(2,3)] by (simp add: assms(1))

lemma length_frames_of_draw_and_erase:
  "length (frames_of (sweep_calls e w (map int [0..<n])
                      @ sweep_calls d w (map (\<lambda>j. int n - int j) [0..<n])) buf) = 2 * n"
  by (simp add: frames_of_append length_frames_of_sweep)

lemma length_frames_of_vapor_trail:
  "length (frames_of (concat (map (\<lambda>h. vapor_calls C t T n h @ frame_end w)
                                (map int [0..<m]))) buf) = m"
proof -
  have "length (frames_of (concat (map (\<lambda>h. vapor_calls C t T n h @ frame_end w)
                                     (map int [0..<m]))) buf)
          = length (map int [0..<m])"
    by (simp only: frames_of_concat [of "vapor_calls C t T n", OF vapor_calls_writes] length_map
        length_upt)
  then show ?thesis by simp
qed


lemma vapor_calls_example:
  "vapor_calls CRYSTAL_RED 2 NONE 3 0
     = [SetPixelColor 0 0, SetPixelColor 1 8323072, SetPixelColor 0 0]"
  by code_simp

lemma vapor_trail_example:
  "vapor_trail CRYSTAL_RED 2 NONE 50 (new_strip [7, 7, 7])
     = emit ([SetPixelColor 0 0, SetPixelColor 1 8323072, SetPixelColor 0 0, Show, Sleep (delay 50)]
             @ vapor_calls CRYSTAL_RED 2 NONE 3 1 @ frame_end 50
             @ vapor_calls CRYSTAL_RED 2 NONE 3 2 @ frame_end 50)
         (new_strip [7, 7, 7])"
  by (simp add: vapor_trail_emit vapor_calls_example frame_end_def)

lemma draw_and_erase_example:
  "trace (draw_and_erase CRYSTAL_RED WARM_WHITE 50 (new_strip [7]))
     = [Show, Sleep (delay 50), SetPixelColor 1 (color_value CRYSTAL_RED), Show, Sleep (delay 50)]"
proof -
  have b: "float_div (float_of_int 10) 10 = 1" by code_simp
  show ?thesis
    by (simp add: draw_and_erase_emit sweep_calls_def fade_calls_def frame_end_def b
        alter_brightness_full del: color_value.simps)
qed



end
